theory Spec2Isabelle
  imports Main "HOL-Library.Sublist"
begin

section \<open>Strings\<close>

text \<open>
  A JavaScript string is modelled as a \<^typ>\<open>string\<close>: each \<^typ>\<open>char\<close> stands for one
  code unit in the range U+0000 .. U+00FF.  Code units above that range are outside
  the model.
\<close>

definition is_space :: "char \<Rightarrow> bool" where
  \<comment> \<open>the white space and line terminators that \<open>String.prototype.trim\<close> strips:
      TAB, LF, VT, FF, CR, SP and NBSP (the ones below U+0100)\<close>
  "is_space c \<longleftrightarrow> of_char c \<in> {9, 10, 11, 12, 13, 32, 160 :: nat}"

definition trim :: "string \<Rightarrow> string" where
  "trim s = rev (dropWhile is_space (rev (dropWhile is_space s)))"

fun join :: "string \<Rightarrow> string list \<Rightarrow> string" where
  "join sep [] = []"
| "join sep [x] = x"
| "join sep (x # y # ys) = x @ sep @ join sep (y # ys)"


section \<open>JavaScript values and errors\<close>

text \<open>
  The values the scripts handle are parsed JSON and \<open>undefined\<close>.  \<open>JNum\<close> carries an
  integer: its decimal rendering is what JavaScript prints for an integral number below
  \<open>10^21\<close> in magnitude; numbers with a fraction or an exponent are outside the model.
  \<open>JObj\<close> lists the own properties of a parsed object (distinct keys); objects that
  carry a property named \<open>toString\<close> or \<open>valueOf\<close> are outside the model.
\<close>

datatype jsval =
    Undefined
  | Null
  | JBool bool
  | JNum int
  | JStr string
  | JArr "jsval list"
  | JObj "(string \<times> jsval) list"

text \<open>
  What a script can throw: \<open>TypeError\<close> (a property read on \<open>null\<close>, a call of
  something that is not a function), \<open>SyntaxError\<close> (\<open>res.json()\<close> on a body that
  is not JSON) and \<open>TransportError\<close> (a rejected \<open>fetch\<close> or browser call).
\<close>

datatype js_error = TypeError | SyntaxError | TransportError

definition bind_err :: "js_error + 'a \<Rightarrow> ('a \<Rightarrow> js_error + 'b) \<Rightarrow> js_error + 'b" where
  "bind_err m f = (case m of Inl e \<Rightarrow> Inl e | Inr x \<Rightarrow> f x)"

fun map_err :: "('a \<Rightarrow> js_error + 'b) \<Rightarrow> 'a list \<Rightarrow> js_error + 'b list" where
  \<comment> \<open>\<open>xs.map(f)\<close> for an \<open>f\<close> that may throw: the first exception ends the traversal\<close>
  "map_err f [] = Inr []"
| "map_err f (x # xs) = bind_err (f x) (\<lambda>y. bind_err (map_err f xs) (\<lambda>ys. Inr (y # ys)))"

definition nullish :: "jsval \<Rightarrow> bool" where
  "nullish v \<longleftrightarrow> v = Undefined \<or> v = Null"

definition nc :: "jsval \<Rightarrow> jsval \<Rightarrow> jsval" where
  \<comment> \<open>the operator \<open>a ?? b\<close>\<close>
  "nc a b = (if nullish a then b else a)"

fun truthy :: "jsval \<Rightarrow> bool" where
  "truthy Undefined = False"
| "truthy Null = False"
| "truthy (JBool b) = b"
| "truthy (JNum i) = (i \<noteq> 0)"
| "truthy (JStr s) = (s \<noteq> [])"
| "truthy (JArr xs) = True"
| "truthy (JObj kvs) = True"

definition digit :: "nat \<Rightarrow> char" where
  "digit d = ''0123456789'' ! d"

function string_of_nat :: "nat \<Rightarrow> string" where
  "string_of_nat n =
     (if n < 10 then [digit n] else string_of_nat (n div 10) @ [digit (n mod 10)])"
  by pat_completeness auto
termination
  by (relation "measure id") auto

fun ToString :: "jsval \<Rightarrow> string" where
  \<comment> \<open>\<open>String(v)\<close>, \<open>`${v}`\<close> and, for a value that is not nullish, \<open>v.toString()\<close>\<close>
  "ToString Undefined = ''undefined''"
| "ToString Null = ''null''"
| "ToString (JBool b) = (if b then ''true'' else ''false'')"
| "ToString (JNum i) = (if i < 0 then ''-'' @ string_of_nat (nat (- i)) else string_of_nat (nat i))"
| "ToString (JStr s) = s"
| "ToString (JArr xs) = join '','' (map (\<lambda>x. if x = Undefined \<or> x = Null then [] else ToString x) xs)"
| "ToString (JObj kvs) = ''[object Object]''"

definition js_join :: "string \<Rightarrow> jsval list \<Rightarrow> string" where
  \<comment> \<open>\<open>xs.join(sep)\<close>: a nullish element contributes the empty string\<close>
  "js_join sep xs = join sep (map (\<lambda>x. if nullish x then [] else ToString x) xs)"

definition field :: "jsval \<Rightarrow> string \<Rightarrow> jsval" where
  \<comment> \<open>\<open>p.k\<close> for a \<open>p\<close> that is not nullish and one of the names the scripts read,
      none of which is inherited from a prototype\<close>
  "field p k = (case p of JObj kvs \<Rightarrow> (case map_of kvs k of Some v \<Rightarrow> v | None \<Rightarrow> Undefined)
               | _ \<Rightarrow> Undefined)"

section \<open>Records\<close>

text \<open>
  The canonical record.  \<open>id\<close> and \<open>title\<close> are strings in every script (the result of
  \<open>trim()\<close> or a regular-expression capture), \<open>state\<close> is the result of \<open>join\<close> or
  \<open>undefined\<close>; the other fields hold whatever the upstream sent, \<open>Undefined\<close> when
  the script sets nothing.
\<close>

record item =
  id_of :: string
  title :: string
  url :: jsval
  state :: "string option"
  office :: jsval
  nepaStatus :: jsval
  nepaType :: jsval
  raw :: jsval

section \<open>normalizeRows\<close>

definition rows_of :: "jsval \<Rightarrow> js_error + jsval list" where
  \<comment> \<open>\<open>const rows = Array.isArray(data) ? data : Array.isArray(data.items) ? ... : []\<close>;
      reading \<open>data.items\<close> throws when \<open>data\<close> is nullish\<close>
  "rows_of data =
     (case data of JArr xs \<Rightarrow> Inr xs
      | _ \<Rightarrow>
        if nullish data then Inl TypeError
        else Inr (case field data ''items'' of JArr xs \<Rightarrow> xs
             | _ \<Rightarrow> (case field data ''content'' of JArr xs \<Rightarrow> xs
             | _ \<Rightarrow> (case field data ''results'' of JArr xs \<Rightarrow> xs
             | _ \<Rightarrow> (case field data ''data'' of JArr xs \<Rightarrow> xs
             | _ \<Rightarrow> [])))))"

definition project_url :: "string \<Rightarrow> string" where
  "project_url i = ''https://eplanning.blm.gov/eplanning-ui/project/'' @ i @ ''/510''"

definition normalizeRow :: "jsval \<Rightarrow> js_error + item" where
  \<comment> \<open>the arrow function of \<open>rows.map(p => ...)\<close>; \<open>p.id\<close> throws when \<open>p\<close> is \<open>null\<close>\<close>
  "normalizeRow p =
     (if nullish p then Inl TypeError
      else
        let i = trim (ToString
                  (nc (field p ''id'') (nc (field p ''projectId'') (nc (field p ''nepaId'')
                  (nc (field p ''documentId'') (nc (field p ''projectID'') (nc (field p ''nepaNumber'')
                  (JStr []))))))));
            t = trim (ToString
                  (nc (field p ''projectName'') (nc (field p ''title'') (nc (field p ''name'')
                  (JStr (''BLM Project '' @ i))))));
            states = (if truthy (field p ''state'') then [field p ''state'']
                      else (case field p ''states'' of JArr xs \<Rightarrow> xs | _ \<Rightarrow> []));
            st = js_join '', '' (filter truthy states);
            u = nc (field p ''url'')
                  (if truthy (field p ''projectId'') then JStr (project_url (ToString (field p ''projectId'')))
                   else if i \<noteq> [] then JStr (project_url i) else Undefined)
        in Inr \<lparr> id_of = i, title = t, url = u,
                  state = (if st = [] then None else Some st),
                  office = nc (field p ''leadOfficeName'') (nc (field p ''office'') (nc (field p ''fieldOffice'') Undefined)),
                  nepaStatus = nc (field p ''nepaStatus'') (nc (field p ''nepaStage'') (nc (field p ''status'') Undefined)),
                  nepaType = nc (field p ''nepaDocType'') (nc (field p ''type'') Undefined),
                  raw = p \<rparr>)"

definition normalizeRows :: "jsval \<Rightarrow> js_error + item list" where
  "normalizeRows data =
     bind_err (rows_of data) (\<lambda>rows.
     bind_err (map_err normalizeRow rows) (\<lambda>xs.
     Inr (filter (\<lambda>x. id_of x \<noteq> [] \<and> truthy (url x)) xs)))"

section \<open>escapeXml\<close>


text \<open>
  \<^verbatim>\<open>s.replace(/[<>&'"]/g, c => ({'<':'&lt;','>':'&gt;','&':'&amp;',"'":'&apos;','"':'&quot;'}[c]))\<close>
  The object literal is the table \<open>entity\<close>; the character class is \<open>reserved\<close>; the
  global replace visits the characters from left to right.
\<close>

definition entity :: "char \<rightharpoonup> string" where
  "entity = [CHR ''<'' \<mapsto> ''&lt;'', CHR ''>'' \<mapsto> ''&gt;'', CHR ''&'' \<mapsto> ''&amp;'',
             CHR 0x27 \<mapsto> ''&apos;'', CHR 0x22 \<mapsto> ''&quot;'']"

definition reserved :: "char \<Rightarrow> bool" where
  "reserved c \<longleftrightarrow> c \<in> {CHR ''<'', CHR ''>'', CHR ''&'', CHR 0x27, CHR 0x22}"

fun escapeXml :: "string \<Rightarrow> string" where
  "escapeXml [] = []"
| "escapeXml (c # cs) =
     (if reserved c then (case entity c of Some e \<Rightarrow> e | None \<Rightarrow> [c]) else [c]) @ escapeXml cs"

definition escapeXml_any :: "jsval \<Rightarrow> js_error + string" where
  \<comment> \<open>\<open>escapeXml(s='')\<close> on a value that was never coerced: the default applies to
      \<open>undefined\<close>, and a value without a \<open>replace\<close> method throws\<close>
  "escapeXml_any v =
     (case v of Undefined \<Rightarrow> Inr (escapeXml []) | JStr s \<Rightarrow> Inr (escapeXml s) | _ \<Rightarrow> Inl TypeError)"

section \<open>itemToRss and writeRss\<close>

definition nl :: string where
  "nl = [CHR 0x0A]"

definition descPart :: "string \<Rightarrow> jsval \<Rightarrow> js_error + string list" where
  \<comment> \<open>\<open>if (item.f) descParts.push(`<b>Label:</b> ${escapeXml(item.f)}`)\<close>\<close>
  "descPart label v =
     (if truthy v then bind_err (escapeXml_any v) (\<lambda>e. Inr [label @ e]) else Inr [])"

definition state_val :: "item \<Rightarrow> jsval" where
  \<comment> \<open>what \<open>item.state\<close> reads\<close>
  "state_val it = (case state it of None \<Rightarrow> Undefined | Some s \<Rightarrow> JStr s)"

definition descParts :: "item \<Rightarrow> js_error + string list" where
  "descParts it =
     bind_err (descPart ''<b>State:</b> '' (state_val it)) (\<lambda>a.
     bind_err (descPart ''<b>Office:</b> '' (office it)) (\<lambda>b.
     bind_err (descPart ''<b>Doc:</b> '' (nepaType it)) (\<lambda>c.
     bind_err (descPart ''<b>Status:</b> '' (nepaStatus it)) (\<lambda>d.
     Inr (a @ b @ c @ d)))))"

definition description :: "item \<Rightarrow> js_error + string" where
  \<comment> \<open>\<open>descParts.length ? `<p>${descParts.join('<br/>')}</p>` : ''\<close>\<close>
  "description it =
     bind_err (descParts it) (\<lambda>parts.
     Inr (if parts \<noteq> [] then ''<p>'' @ join ''<br/>'' parts @ ''</p>'' else []))"

definition itemToRss :: "string \<Rightarrow> item \<Rightarrow> js_error + string" where
  \<comment> \<open>\<open>now\<close> is the reading of \<open>nowRfc822()\<close>\<close>
  "itemToRss now it =
     bind_err (description it) (\<lambda>d.
     bind_err (escapeXml_any (url it)) (\<lambda>u.
     Inr (nl @ ''  <item>'' @ nl
          @ ''    <guid isPermaLink=\"false\">'' @ escapeXml (id_of it) @ ''</guid>'' @ nl
          @ ''    <title>'' @ escapeXml (title it) @ ''</title>'' @ nl
          @ ''    <link>'' @ u @ ''</link>'' @ nl
          @ ''    <pubDate>'' @ now @ ''</pubDate>'' @ nl
          @ ''    <description><![CDATA['' @ d @ '']]></description>'' @ nl
          @ ''  </item>'')))"

definition rss_document :: "string \<Rightarrow> string \<Rightarrow> string \<Rightarrow> item list \<Rightarrow> js_error + string" where
  \<comment> \<open>the text \<open>writeRss\<close> hands to \<open>fs.writeFileSync\<close>; one clock reading stands for
      every \<open>nowRfc822()\<close> of the document\<close>
  "rss_document now ttl link items =
     bind_err (map_err (itemToRss now) items) (\<lambda>rendered.
     Inr (trim (''<?xml version=\"1.0\" encoding=\"UTF-8\"?>'' @ nl
          @ ''<rss version=\"2.0\">'' @ nl
          @ ''<channel>'' @ nl
          @ ''  <title>'' @ escapeXml ttl @ ''</title>'' @ nl
          @ ''  <link>'' @ escapeXml link @ ''</link>'' @ nl
          @ ''  <description>'' @ escapeXml ttl @ ''</description>'' @ nl
          @ ''  <lastBuildDate>'' @ now @ ''</lastBuildDate>'' @ nl
          @ ''  '' @ join nl rendered @ nl
          @ ''</channel>'' @ nl
          @ ''</rss>'') @ nl))"

definition writeRss ::
  "string \<Rightarrow> (string \<rightharpoonup> string) \<Rightarrow> string \<Rightarrow> string \<Rightarrow> string \<Rightarrow> item list \<Rightarrow> js_error + (string \<rightharpoonup> string)" where
  \<comment> \<open>the file system is a map from paths to contents\<close>
  "writeRss now files filePath ttl link items =
     bind_err (rss_document now ttl link items) (\<lambda>xml. Inr (files(filePath \<mapsto> xml)))"

section \<open>Letter case\<close>

definition upper_letter :: "char \<Rightarrow> bool" where
  \<comment> \<open>the code units below U+0100 that \<open>toLowerCase\<close> changes: A-Z, and U+00C0 .. U+00DE
      without the multiplication sign U+00D7\<close>
  "upper_letter c \<longleftrightarrow>
     (let n = (of_char c :: nat) in (65 \<le> n \<and> n \<le> 90) \<or> (192 \<le> n \<and> n \<le> 222 \<and> n \<noteq> 215))"

fun toLowerCase_char :: "char \<Rightarrow> char" where
  \<comment> \<open>the lower-case letter is 32 code points up: bit 5 is set\<close>
  "toLowerCase_char (Char b0 b1 b2 b3 b4 b5 b6 b7) =
     (if upper_letter (Char b0 b1 b2 b3 b4 b5 b6 b7) then Char b0 b1 b2 b3 b4 True b6 b7
      else Char b0 b1 b2 b3 b4 b5 b6 b7)"

definition toLowerCase :: "string \<Rightarrow> string" where
  "toLowerCase s = map toLowerCase_char s"

section \<open>The HTML link extractor\<close>

text \<open>
  \<^verbatim>\<open>/href="(\/eplanning-ui\/project\/(\d+)\/510)"[^>]*>([^<]+)<\/a>/gi\<close>

  \<open>link_at s\<close> is the match of this expression that starts at the first character of
  \<open>s\<close>: the captures \<open>m[1]\<close>, \<open>m[2]\<close>, \<open>m[3]\<close> and the text after the match.  Each
  repetition is followed by a character outside its class, so the longest run is the
  only candidate and the match at a position is unique.  With the flag \<open>i\<close> the letters
  of the pattern match either case, and no code unit above U+007F matches an ASCII
  letter.
\<close>

definition is_digit :: "char \<Rightarrow> bool" where
  "is_digit c \<longleftrightarrow> 48 \<le> (of_char c :: nat) \<and> (of_char c :: nat) \<le> 57"

definition link_at :: "string \<Rightarrow> (string \<times> string \<times> string \<times> string) option" where
  "link_at s =
     (if toLowerCase (take 6 s) = ''href=\"'' then
        let s1 = drop 6 s in
        if toLowerCase (take 22 s1) = ''/eplanning-ui/project/'' then
          let s2 = drop 22 s1; ds = takeWhile is_digit s2; s3 = dropWhile is_digit s2 in
          if ds \<noteq> [] \<and> take 5 s3 = ''/510\"'' then
            (case dropWhile (\<lambda>c. c \<noteq> CHR ''>'') (drop 5 s3) of
               [] \<Rightarrow> None
             | _ # s4 \<Rightarrow>
                 let txt = takeWhile (\<lambda>c. c \<noteq> CHR ''<'') s4; s5 = dropWhile (\<lambda>c. c \<noteq> CHR ''<'') s4 in
                 if txt \<noteq> [] \<and> toLowerCase (take 4 s5) = ''</a>''
                 then Some (take 22 s1 @ ds @ ''/510'', ds, txt, drop 4 s5)
                 else None)
          else None
        else None
      else None)"

lemma link_at_shorter: "link_at s = Some (rel, i, txt, rest) \<Longrightarrow> length rest < length s"
proof -
  assume a: "link_at s = Some (rel, i, txt, rest)"
  have dw: "length (dropWhile P xs) \<le> length xs" for P and xs :: string
    by (induction xs) auto
  let ?tag = "dropWhile (\<lambda>c. c \<noteq> CHR ''>'') (drop 5 (dropWhile is_digit (drop 22 (drop 6 s))))"
  from a obtain c s4 where s4: "?tag = c # s4"
    and rest: "rest = drop 4 (dropWhile (\<lambda>c. c \<noteq> CHR ''<'') s4)"
    by (auto simp: link_at_def Let_def split: if_splits list.splits)
  have "Suc (length s4) = length ?tag"
    unfolding s4 by simp
  also have "\<dots> \<le> length (drop 5 (dropWhile is_digit (drop 22 (drop 6 s))))"
    by (rule dw)
  also have "\<dots> \<le> length (dropWhile is_digit (drop 22 (drop 6 s)))"
    by simp
  also have "\<dots> \<le> length (drop 22 (drop 6 s))"
    by (rule dw)
  also have "\<dots> \<le> length s"
    by simp
  finally have "length s4 < length s"
    by simp
  moreover have "length rest \<le> length s4"
    unfolding rest using dw [of "\<lambda>c. c \<noteq> CHR ''<''" s4] by simp
  ultimately show ?thesis
    by simp
qed

function exec_all :: "string \<Rightarrow> (string \<times> string \<times> string) list" where
  \<comment> \<open>\<open>while ((m = linkRe.exec(html)) !== null)\<close>: the leftmost match from \<open>lastIndex\<close> on,
      then the search resumes behind it\<close>
  "exec_all [] = []"
| "exec_all (c # cs) =
     (case link_at (c # cs) of
        Some (rel, i, txt, rest) \<Rightarrow> (rel, i, txt) # exec_all rest
      | None \<Rightarrow> exec_all cs)"
  by pat_completeness auto
termination
  by (relation "measure length") (auto dest: link_at_shorter)

definition link_item :: "string \<times> string \<times> string \<Rightarrow> item" where
  \<comment> \<open>the object pushed for one match\<close>
  "link_item m =
     (case m of (rel, i, txt) \<Rightarrow>
        \<lparr> id_of = i,
          title = (if trim txt \<noteq> [] then trim txt else ''BLM Project '' @ i),
          url = JStr (''https://eplanning.blm.gov'' @ rel),
          state = None, office = Undefined, nepaStatus = Undefined, nepaType = Undefined,
          raw = Undefined \<rparr>)"

definition extract_links :: "string \<Rightarrow> item list" where
  \<comment> \<open>the loop of \<open>fetchKeywordViaHtml\<close> over the page text\<close>
  "extract_links html = map link_item (exec_all html)"

section \<open>Configuration and query expansion\<close>

text \<open>
  An entry of \<open>cfg.queries\<close>; \<open>None\<close> is an entry that is \<open>null\<close>.  A missing
  \<open>searchText\<close> is the empty string, a missing \<open>perState\<close> is \<open>False\<close>: the scripts
  only test both for truth.  The configured states are strings.
\<close>

record query =
  searchText :: string
  perState :: bool

definition expand :: "string list \<Rightarrow> query option \<Rightarrow> string list" where
  \<comment> \<open>the array \<open>terms\<close> of the browser script, which the keyword script walks without
      building it\<close>
  "expand states qo =
     (case qo of None \<Rightarrow> []
      | Some q \<Rightarrow>
          if searchText q = [] then []
          else if perState q \<and> states \<noteq> []
          then fold (\<lambda>st terms. terms @ [trim (searchText q @ '' '' @ st)]) states []
          else [searchText q])"

section \<open>Deduplication\<close>

fun absorb :: "(item \<Rightarrow> string) \<Rightarrow> item list \<Rightarrow> item list \<times> string set \<Rightarrow> item list \<times> string set" where
  \<comment> \<open>\<open>for (const r of rows) { if (seen.has(key)) continue; seen.add(key); merged.push(r); }\<close>
      on the pair of \<open>merged\<close> and \<open>seen\<close>\<close>
  "absorb key [] ms = ms"
| "absorb key (r # rows) (merged, seen) =
     (if key r \<in> seen then absorb key rows (merged, seen)
      else absorb key rows (merged @ [r], insert (key r) seen))"

section \<open>The keyword script\<close>

text \<open>
  The upstream is outside the scripts: a request is a step of a world \<open>'w\<close> that returns
  a response or rejects.  \<open>post\<close> is the \<open>POST\<close> of a search text to the search
  endpoint, \<open>get\<close> the \<open>GET\<close> of the search page for a search text followed by
  \<open>text()\<close>.  Of a response the script reads the \<open>content-type\<close> header (\<open>None\<close> when
  there is none) and \<open>json()\<close>, which rejects on a body that does not parse.
\<close>

record response =
  content_type :: "string option"
  json :: "js_error + jsval"

type_synonym ('w, 'a) request = "string \<Rightarrow> 'w \<Rightarrow> (js_error + 'a) \<times> 'w"

fun includes_str :: "string \<Rightarrow> string \<Rightarrow> bool" where
  \<comment> \<open>\<open>s.includes(t)\<close>, as \<open>includes_str t s\<close>\<close>
  "includes_str t [] = (t = [])"
| "includes_str t (c # cs) = (prefix t (c # cs) \<or> includes_str t cs)"

definition fetchKeywordViaHtml :: "('w, string) request \<Rightarrow> ('w, item list) request" where
  "fetchKeywordViaHtml get text w =
     (case get text w of
        (Inl e, w') \<Rightarrow> (Inl e, w')
      | (Inr html, w') \<Rightarrow> (Inr (extract_links html), w'))"

definition fetchKeyword :: "('w, response) request \<Rightarrow> ('w, string) request \<Rightarrow> ('w, item list) request" where
  "fetchKeyword post get text w =
     (case post text w of
        (Inl e, w') \<Rightarrow> (Inl e, w')
      | (Inr res, w') \<Rightarrow>
          let ct = toLowerCase (case content_type res of None \<Rightarrow> [] | Some h \<Rightarrow> h) in
          if includes_str ''application/json'' ct
          then (bind_err (json res) normalizeRows, w')
          else fetchKeywordViaHtml get text w')"

fun per_state ::
  "('w, item list) request \<Rightarrow> string \<Rightarrow> string list \<Rightarrow> item list \<times> string set \<Rightarrow> 'w
     \<Rightarrow> (js_error + item list \<times> string set) \<times> 'w" where
  \<comment> \<open>\<open>for (const st of states)\<close> of the keyword script\<close>
  "per_state fetch text [] ms w = (Inr ms, w)"
| "per_state fetch text (st # sts) ms w =
     (case fetch (trim (text @ '' '' @ st)) w of
        (Inl e, w') \<Rightarrow> (Inl e, w')
      | (Inr rows, w') \<Rightarrow> per_state fetch text sts (absorb id_of rows ms) w')"

fun keyword_queries ::
  "('w, item list) request \<Rightarrow> string list \<Rightarrow> query option list \<Rightarrow> item list \<times> string set \<Rightarrow> 'w
     \<Rightarrow> (js_error + item list \<times> string set) \<times> 'w" where
  \<comment> \<open>\<open>for (const q of queries)\<close> of the keyword script\<close>
  "keyword_queries fetch states [] ms w = (Inr ms, w)"
| "keyword_queries fetch states (None # qs) ms w = keyword_queries fetch states qs ms w"
| "keyword_queries fetch states (Some q # qs) ms w =
     (if searchText q = [] then keyword_queries fetch states qs ms w
      else if perState q \<and> states \<noteq> [] then
        (case per_state fetch (searchText q) states ms w of
           (Inl e, w') \<Rightarrow> (Inl e, w')
         | (Inr ms', w') \<Rightarrow> keyword_queries fetch states qs ms' w')
      else
        (case fetch (searchText q) w of
           (Inl e, w') \<Rightarrow> (Inl e, w')
         | (Inr rows, w') \<Rightarrow> keyword_queries fetch states qs (absorb id_of rows ms) w'))"

definition run_keyword ::
  "('w, response) request \<Rightarrow> ('w, string) request \<Rightarrow> string list \<Rightarrow> query option list \<Rightarrow> 'w
     \<Rightarrow> (js_error + item list) \<times> 'w" where
  \<comment> \<open>\<open>run\<close> of the keyword script up to the array \<open>merged\<close> that it writes out\<close>
  "run_keyword post get states queries w =
     (case keyword_queries (fetchKeyword post get) states queries ([], {}) w of
        (Inl e, w') \<Rightarrow> (Inl e, w')
      | (Inr (merged, seen), w') \<Rightarrow> (Inr merged, w'))"

section \<open>The browser script\<close>

text \<open>
  \<open>browse\<close> is the browser: the navigation to the search page for a term, the click,
  the wait and \<open>page.$$eval\<close>, which returns the \<open>url\<close> and the trimmed text of every
  anchor that the selector finds.
\<close>

definition project_id_at :: "string \<Rightarrow> string option" where
  \<comment> \<open>the match of \<^verbatim>\<open>/\/project\/(\d+)\/510/\<close> at the first character\<close>
  "project_id_at s =
     (if take 9 s = ''/project/'' then
        let ds = takeWhile is_digit (drop 9 s) in
        if ds \<noteq> [] \<and> take 4 (dropWhile is_digit (drop 9 s)) = ''/510'' then Some ds else None
      else None)"

fun project_id :: "string \<Rightarrow> string option" where
  \<comment> \<open>\<open>url.match(...)\<close>: the capture of the leftmost match\<close>
  "project_id [] = None"
| "project_id (c # cs) =
     (case project_id_at (c # cs) of Some i \<Rightarrow> Some i | None \<Rightarrow> project_id cs)"

definition mapped :: "(string \<times> string) list \<Rightarrow> item list" where
  \<comment> \<open>\<open>items.map(...).filter(Boolean)\<close>; a captured \<open>id\<close> is never empty\<close>
  "mapped items =
     concat (map (\<lambda>(u, t).
       case project_id u of
         None \<Rightarrow> []
       | Some i \<Rightarrow>
           [\<lparr> id_of = i, title = (if t \<noteq> [] then t else ''BLM Project '' @ i), url = JStr u,
               state = None, office = Undefined, nepaStatus = Undefined, nepaType = Undefined,
               raw = Undefined \<rparr>]) items)"

definition scrapeSearchTerm :: "('w, (string \<times> string) list) request \<Rightarrow> ('w, item list) request" where
  "scrapeSearchTerm browse term w =
     (case browse term w of
        (Inl e, w') \<Rightarrow> (Inl e, w')
      | (Inr items, w') \<Rightarrow> (Inr (mapped items), w'))"

definition id_url :: "item \<Rightarrow> string" where
  \<comment> \<open>\<open>`${r.id}|${r.url}`\<close>\<close>
  "id_url r = id_of r @ ''|'' @ ToString (url r)"

fun browser_terms ::
  "('w, item list) request \<Rightarrow> string list \<Rightarrow> item list \<times> string set \<Rightarrow> 'w
     \<Rightarrow> (js_error + item list \<times> string set) \<times> 'w" where
  \<comment> \<open>\<open>for (const term of terms)\<close> of the browser script\<close>
  "browser_terms scrape [] ms w = (Inr ms, w)"
| "browser_terms scrape (term # terms) ms w =
     (case scrape term w of
        (Inl e, w') \<Rightarrow> (Inl e, w')
      | (Inr rows, w') \<Rightarrow> browser_terms scrape terms (absorb id_url rows ms) w')"

fun browser_queries ::
  "('w, item list) request \<Rightarrow> string list \<Rightarrow> query option list \<Rightarrow> item list \<times> string set \<Rightarrow> 'w
     \<Rightarrow> (js_error + item list \<times> string set) \<times> 'w" where
  \<comment> \<open>\<open>for (const q of queries)\<close> of the browser script\<close>
  "browser_queries scrape states [] ms w = (Inr ms, w)"
| "browser_queries scrape states (q # qs) ms w =
     (case browser_terms scrape (expand states q) ms w of
        (Inl e, w') \<Rightarrow> (Inl e, w')
      | (Inr ms', w') \<Rightarrow> browser_queries scrape states qs ms' w')"

definition run_browser ::
  "('w, (string \<times> string) list) request \<Rightarrow> string list \<Rightarrow> query option list \<Rightarrow> 'w
     \<Rightarrow> (js_error + item list) \<times> 'w" where
  \<comment> \<open>\<open>run\<close> of the browser script up to the array \<open>merged\<close> that it writes out\<close>
  "run_browser browse states queries w =
     (case browser_queries (scrapeSearchTerm browse) states queries ([], {}) w of
        (Inl e, w') \<Rightarrow> (Inl e, w')
      | (Inr (merged, seen), w') \<Rightarrow> (Inr merged, w'))"

section \<open>Feeds by state\<close>

fun split_comma :: "string \<Rightarrow> string list" where
  \<comment> \<open>\<open>s.split(',')\<close>; the empty string gives one empty piece\<close>
  "split_comma [] = [[]]"
| "split_comma (c # cs) =
     (if c = CHR '','' then [] # split_comma cs
      else (case split_comma cs of [] \<Rightarrow> [[c]] | x # xs \<Rightarrow> (c # x) # xs))"

definition state_tokens :: "item \<Rightarrow> string list" where
  \<comment> \<open>\<open>(r.state || '').split(',').map(s => s.trim()).filter(Boolean)\<close>\<close>
  "state_tokens r =
     filter (\<lambda>s. s \<noteq> []) (map trim (split_comma (case state r of None \<Rightarrow> [] | Some s \<Rightarrow> s)))"

fun push_to :: "string \<Rightarrow> item \<Rightarrow> (string \<times> item list) list \<Rightarrow> (string \<times> item list) list" where
  \<comment> \<open>\<open>if (!byState.has(st)) byState.set(st, []); byState.get(st).push(r);\<close> on a \<open>Map\<close>,
      whose entries stay in the order of their first \<open>set\<close>\<close>
  "push_to st r [] = [(st, [r])]"
| "push_to st r ((k, rs) # m) = (if k = st then (k, rs @ [r]) # m else (k, rs) # push_to st r m)"

definition partition_by_state :: "item list \<Rightarrow> (string \<times> item list) list" where
  \<comment> \<open>the loop that fills \<open>byState\<close> from \<open>merged\<close>\<close>
  "partition_by_state merged = fold (\<lambda>r m. fold (\<lambda>st. push_to st r) (state_tokens r) m) merged []"

definition lower_letter :: "char \<Rightarrow> bool" where
  \<comment> \<open>the code units below U+0100 whose upper case is 32 code points down: a-z, and
      U+00E0 .. U+00FE without the division sign U+00F7\<close>
  "lower_letter c \<longleftrightarrow>
     (let n = (of_char c :: nat) in (97 \<le> n \<and> n \<le> 122) \<or> (224 \<le> n \<and> n \<le> 254 \<and> n \<noteq> 247))"

fun toUpperCase_char :: "char \<Rightarrow> string" where
  \<comment> \<open>the sharp s (U+00DF) becomes \<open>SS\<close>.  The upper case of the micro sign (U+00B5) and of
      y with diaeresis (U+00FF) is above U+00FF and no letter A-Z: the two are left as
      they are\<close>
  "toUpperCase_char (Char b0 b1 b2 b3 b4 b5 b6 b7) =
     (if Char b0 b1 b2 b3 b4 b5 b6 b7 = CHR 0xDF then ''SS''
      else if lower_letter (Char b0 b1 b2 b3 b4 b5 b6 b7) then [Char b0 b1 b2 b3 b4 False b6 b7]
      else [Char b0 b1 b2 b3 b4 b5 b6 b7])"

definition toUpperCase :: "string \<Rightarrow> string" where
  "toUpperCase s = concat (map toUpperCase_char s)"

definition fname :: "string \<Rightarrow> string" where
  \<comment> \<open>\<^verbatim>\<open>st.toUpperCase().replace(/[^A-Z]/g, '')\<close>\<close>
  "fname st = filter (\<lambda>c. 65 \<le> (of_char c :: nat) \<and> (of_char c :: nat) \<le> 90) (toUpperCase st)"

definition state_path :: "string \<Rightarrow> string \<Rightarrow> string" where
  \<comment> \<open>\<open>path.join(OUT_STATE_DIR, `${fname}.xml`)\<close> for the output directory \<open>dir\<close>\<close>
  "state_path dir st = dir @ ''/'' @ fname st @ ''.xml''"

fun write_state_feeds ::
  "string \<Rightarrow> string \<Rightarrow> (string \<Rightarrow> string) \<Rightarrow> (string \<times> item list) list \<Rightarrow> (string \<rightharpoonup> string)
     \<Rightarrow> js_error + (string \<rightharpoonup> string)" where
  \<comment> \<open>\<open>for (const [st, items] of byState.entries())\<close>.  \<open>ttl\<close> is the title of the feed of a
      state; the titles of the scripts contain a dash above U+00FF\<close>
  "write_state_feeds now dir ttl [] files = Inr files"
| "write_state_feeds now dir ttl ((st, items) # entries) files =
     bind_err (writeRss now files (state_path dir st) (ttl st) ''https://eplanning.blm.gov/eplanning-ui/home'' items)
       (\<lambda>files'. write_state_feeds now dir ttl entries files')"

section \<open>Notions used in the statements\<close>

definition str_or_absent :: "jsval \<Rightarrow> bool" where
  "str_or_absent v = (case v of Undefined \<Rightarrow> True | JStr s \<Rightarrow> True | _ \<Rightarrow> False)"

definition meta_line :: "string \<Rightarrow> jsval \<Rightarrow> string list" where
  "meta_line label v = (case v of JStr s \<Rightarrow> (if s = [] then [] else [label @ escapeXml s]) | _ \<Rightarrow> [])"

definition optional_fields :: "item \<Rightarrow> jsval list" where
  "optional_fields it = [state_val it, office it, nepaType it, nepaStatus it]"

definition nevada :: item where
  "nevada = \<lparr> id_of = ''42'', title = ''Desert Trail'', url = JStr ''u'', state = Some ''Nevada'',
              office = Undefined, nepaStatus = Undefined, nepaType = Undefined, raw = Undefined \<rparr>"

definition office_5 :: item where
  \<comment> \<open>what \<open>normalizeRows\<close> makes of the row \<open>{"id": "1", "office": 5}\<close>\<close>
  "office_5 =
     \<lparr> id_of = ''1'', title = ''BLM Project 1'',
       url = JStr ''https://eplanning.blm.gov/eplanning-ui/project/1/510'',
       state = None, office = JNum 5, nepaStatus = Undefined, nepaType = Undefined,
       raw = JObj [(''id'', JStr ''1''), (''office'', JNum 5)] \<rparr>"

definition id_fields :: "string list" where
  \<comment> \<open>the identity fields, in the order \<open>normalizeRows\<close> tries them\<close>
  "id_fields = [''id'', ''projectId'', ''nepaId'', ''documentId'', ''projectID'', ''nepaNumber'']"

primrec first_by :: "('a \<Rightarrow> 'k) \<Rightarrow> 'a list \<Rightarrow> 'a list" where
  \<comment> \<open>the first element of every key, in the order of the list\<close>
  "first_by key [] = []"
| "first_by key (x # xs) = x # filter (\<lambda>y. key y \<noteq> key x) (first_by key xs)"

fun fetch_all :: "('w, 'a) request \<Rightarrow> string list \<Rightarrow> 'w \<Rightarrow> (js_error + 'a list) \<times> 'w" where
  \<comment> \<open>the results retrieved for a list of terms, one request after the other, up to the
      first rejection\<close>
  "fetch_all fetch [] w = (Inr [], w)"
| "fetch_all fetch (t # ts) w =
     (case fetch t w of
        (Inl e, w') \<Rightarrow> (Inl e, w')
      | (Inr x, w') \<Rightarrow>
          (case fetch_all fetch ts w' of
             (Inl e, w'') \<Rightarrow> (Inl e, w'')
           | (Inr xs, w'') \<Rightarrow> (Inr (x # xs), w'')))"

text \<open>Example upstreams: the world counts the requests.\<close>

definition json_reply :: "(nat, response) request" where
  \<comment> \<open>every search text finds the project 1, under a \<open>url\<close> that names the search text\<close>
  "json_reply t w =
     (Inr \<lparr>content_type = Some ''application/json; charset=utf-8'',
           json = Inr (JArr [JObj [(''id'', JStr ''1''), (''url'', JStr t)]])\<rparr>, Suc w)"


definition search_page :: "(nat, string) request" where
  "search_page t w = (Inr ''<a href=\"/eplanning-ui/project/42/510\">Desert Trail</a>'', Suc w)"

definition link_page :: "(nat, (string \<times> string) list) request" where
  \<comment> \<open>every term shows the same anchor\<close>
  "link_page t w = (Inr [(''https://eplanning.blm.gov/eplanning-ui/project/42/510'', ''Desert Trail'')], Suc w)"

definition twin_page :: "(nat, (string \<times> string) list) request" where
  \<comment> \<open>two anchors of the same project, the second with a query string that ends in \<open>/510\<close>\<close>
  "twin_page t w =
     (Inr [(''https://eplanning.blm.gov/eplanning-ui/project/42/510'', ''Desert Trail''),
           (''https://eplanning.blm.gov/eplanning-ui/project/42/510?tab=/510'', ''Desert Trail'')], Suc w)"

definition two_queries :: "query option list" where
  "two_queries = [Some \<lparr>searchText = ''solar'', perState = False\<rparr>,
                  Some \<lparr>searchText = ''wind'', perState = False\<rparr>]"

definition project_1 :: "string \<Rightarrow> item" where
  "project_1 t =
     \<lparr> id_of = ''1'', title = ''BLM Project 1'', url = JStr t, state = None, office = Undefined,
       nepaStatus = Undefined, nepaType = Undefined,
       raw = JObj [(''id'', JStr ''1''), (''url'', JStr t)] \<rparr>"

definition project_42 :: "string \<Rightarrow> item" where
  "project_42 u =
     \<lparr> id_of = ''42'', title = ''Desert Trail'', url = JStr u, state = None, office = Undefined,
       nepaStatus = Undefined, nepaType = Undefined, raw = Undefined \<rparr>"







definition anchor :: "string \<Rightarrow> string \<Rightarrow> string \<Rightarrow> string \<Rightarrow> string \<Rightarrow> string \<Rightarrow> string" where
  \<comment> \<open>the text of a project link: the attribute name with the opening quote, the path up
      to the digits, the digits, what follows the closing quote inside the tag, the link
      text, the closing tag\<close>
  "anchor h p ds attrs txt cl = h @ p @ ds @ ''/510\"'' @ attrs @ ''>'' @ txt @ cl"

definition project_link :: "string \<Rightarrow> string \<Rightarrow> string \<Rightarrow> string \<Rightarrow> string \<Rightarrow> string \<Rightarrow> bool" where
  \<comment> \<open>the parts are those of a match of the expression of \<open>fetchKeywordViaHtml\<close>\<close>
  "project_link h p ds attrs txt cl \<longleftrightarrow>
     toLowerCase h = ''href=\"'' \<and> toLowerCase p = ''/eplanning-ui/project/''
     \<and> ds \<noteq> [] \<and> (\<forall>c \<in> set ds. is_digit c)
     \<and> CHR ''>'' \<notin> set attrs
     \<and> txt \<noteq> [] \<and> CHR ''<'' \<notin> set txt
     \<and> toLowerCase cl = ''</a>''"

definition sublist_of :: "(string \<times> item list) list \<Rightarrow> string \<Rightarrow> item list" where
  \<comment> \<open>the sub-list of a label, empty when the map has no such label\<close>
  "sublist_of m st = (case map_of m st of None \<Rightarrow> [] | Some rs \<Rightarrow> rs)"

definition nevada_twice :: item where
  "nevada_twice = nevada\<lparr>state := Some ''NV, NV''\<rparr>"

definition home :: string where
  "home = ''https://eplanning.blm.gov/eplanning-ui/home''"

definition watch_title :: "string \<Rightarrow> string" where
  "watch_title st = ''BLM Watch ('' @ st @ '')''"

definition nevada_low :: item where
  "nevada_low = nevada\<lparr>id_of := ''7'', url := JStr ''https://eplanning.blm.gov/eplanning-ui/project/7/510'', state := Some ''nv''\<rparr>"

definition nevada_up :: item where
  "nevada_up = nevada\<lparr>url := JStr ''https://eplanning.blm.gov/eplanning-ui/project/42/510'', state := Some ''NV''\<rparr>"

section \<open>Properties of escapeXml\<close>

lemma escapeXml_append: "escapeXml (xs @ ys) = escapeXml xs @ escapeXml ys"
  by (induction xs) simp_all

lemma escapeXml_clean: "\<forall>c \<in> set s. \<not> reserved c \<Longrightarrow> escapeXml s = s"
  by (induction s) simp_all

text \<open>
  C9.  \<open>escapeXml\<close> rewrites a string character by character: each of the five reserved
  characters \<open>&\<close>, \<open><\<close>, \<open>>\<close>, \<open>'\<close>, \<open>"\<close> becomes its named entity, every other
  character is copied unchanged, and a string without reserved characters is returned
  as it is.
\<close>

theorem escapeXml_entities:
  "escapeXml s =
     concat (map (\<lambda>c. if c = CHR ''&'' then ''&amp;''
                       else if c = CHR ''<'' then ''&lt;''
                       else if c = CHR ''>'' then ''&gt;''
                       else if c = CHR 0x27 then ''&apos;''
                       else if c = CHR 0x22 then ''&quot;''
                       else [c]) s)
   \<and> ((\<forall>c \<in> set s. c \<notin> {CHR ''&'', CHR ''<'', CHR ''>'', CHR 0x27, CHR 0x22}) \<longrightarrow> escapeXml s = s)"
proof
  show "escapeXml s =
     concat (map (\<lambda>c. if c = CHR ''&'' then ''&amp;''
                       else if c = CHR ''<'' then ''&lt;''
                       else if c = CHR ''>'' then ''&gt;''
                       else if c = CHR 0x27 then ''&apos;''
                       else if c = CHR 0x22 then ''&quot;''
                       else [c]) s)"
    by (induction s) (simp_all add: reserved_def entity_def)
next
  show "(\<forall>c \<in> set s. c \<notin> {CHR ''&'', CHR ''<'', CHR ''>'', CHR 0x27, CHR 0x22}) \<longrightarrow> escapeXml s = s"
  proof
    assume "\<forall>c \<in> set s. c \<notin> {CHR ''&'', CHR ''<'', CHR ''>'', CHR 0x27, CHR 0x22}"
    then have "\<forall>c \<in> set s. \<not> reserved c"
      by (auto simp: reserved_def)
    then show "escapeXml s = s"
      by (rule escapeXml_clean)
  qed
qed

theorem escapeXml_entities_witness:
  "escapeXml ''a<b & 'c' > \"d\"'' = ''a&lt;b &amp; &apos;c&apos; &gt; &quot;d&quot;''
   \<and> escapeXml ''Desert Trail'' = ''Desert Trail''"
  using escapeXml_entities [of "''a<b & 'c' > \"d\"''"] escapeXml_entities [of "''Desert Trail''"]
  by simp

section \<open>The description of an entry\<close>

lemma descPart_str: "str_or_absent v \<Longrightarrow> descPart label v = Inr (meta_line label v)"
  by (cases v) (simp_all add: str_or_absent_def descPart_def meta_line_def escapeXml_any_def bind_err_def)

lemma length_meta_line: "str_or_absent v \<Longrightarrow> length (meta_line label v) = (if truthy v then 1 else 0)"
  by (cases v) (simp_all add: str_or_absent_def meta_line_def)

lemma str_or_absent_state_val: "str_or_absent (state_val it)"
  by (simp add: state_val_def str_or_absent_def split: option.splits)

lemma descParts_str:
  assumes "str_or_absent (office it)" "str_or_absent (nepaType it)" "str_or_absent (nepaStatus it)"
  shows "descParts it = Inr (meta_line ''<b>State:</b> '' (state_val it) @ meta_line ''<b>Office:</b> '' (office it)
            @ meta_line ''<b>Doc:</b> '' (nepaType it) @ meta_line ''<b>Status:</b> '' (nepaStatus it))"
  using assms by (simp add: descParts_def descPart_str str_or_absent_state_val bind_err_def)

text \<open>
  For a record whose metadata fields are strings or absent, the description of its
  entry is built from the fields \<open>state\<close>, \<open>office\<close>, \<open>nepaType\<close>, \<open>nepaStatus\<close> that are
  present (neither absent nor empty), in this order, one line each, the lines separated
  by \<open><br/>\<close> inside one \<open><p>\<close> element.  A record with exactly one present field has a
  description of exactly one line, and a record with none has the empty description.
\<close>

lemma description_from_present_fields:
  assumes "str_or_absent (office it)" "str_or_absent (nepaType it)" "str_or_absent (nepaStatus it)"
  shows "\<exists>parts. descParts it = Inr parts
           \<and> parts = meta_line ''<b>State:</b> '' (state_val it) @ meta_line ''<b>Office:</b> '' (office it)
                      @ meta_line ''<b>Doc:</b> '' (nepaType it) @ meta_line ''<b>Status:</b> '' (nepaStatus it)
           \<and> length parts = length (filter truthy (optional_fields it))
           \<and> description it = Inr (if parts = [] then [] else ''<p>'' @ join ''<br/>'' parts @ ''</p>'')
           \<and> (length (filter truthy (optional_fields it)) = 1 \<longrightarrow>
                 (\<exists>line. parts = [line] \<and> description it = Inr (''<p>'' @ line @ ''</p>'')))
           \<and> (filter truthy (optional_fields it) = [] \<longrightarrow> description it = Inr [])"
proof -
  let ?parts = "meta_line ''<b>State:</b> '' (state_val it) @ meta_line ''<b>Office:</b> '' (office it)
                      @ meta_line ''<b>Doc:</b> '' (nepaType it) @ meta_line ''<b>Status:</b> '' (nepaStatus it)"
  have parts: "descParts it = Inr ?parts"
    using assms by (rule descParts_str)
  have len: "length ?parts = length (filter truthy (optional_fields it))"
    using assms by (simp add: length_meta_line str_or_absent_state_val optional_fields_def)
  have desc: "description it = Inr (if ?parts = [] then [] else ''<p>'' @ join ''<br/>'' ?parts @ ''</p>'')"
    by (simp add: description_def parts bind_err_def)
  have one: "\<exists>line. ?parts = [line] \<and> description it = Inr (''<p>'' @ line @ ''</p>'')"
    if "length (filter truthy (optional_fields it)) = 1"
  proof -
    from that len have "length ?parts = 1" by simp
    then obtain line where l: "?parts = [line]"
      by (cases ?parts) auto
    then have "description it = Inr (''<p>'' @ line @ ''</p>'')"
      unfolding desc by simp
    with l show ?thesis by blast
  qed
  have none: "description it = Inr []" if "filter truthy (optional_fields it) = []"
  proof -
    from that len have "?parts = []" by simp
    then show ?thesis unfolding desc by simp
  qed
  from parts len desc one none show ?thesis by blast
qed

lemma description_nevada:
  "str_or_absent (office nevada) \<and> str_or_absent (nepaType nevada) \<and> str_or_absent (nepaStatus nevada)
   \<and> length (filter truthy (optional_fields nevada)) = 1
   \<and> description nevada = Inr ''<p><b>State:</b> Nevada</p>''
   \<and> description (nevada\<lparr>state := None\<rparr>) = Inr []"
  using description_from_present_fields [of nevada] description_from_present_fields [of "nevada\<lparr>state := None\<rparr>"]
  by (simp add: nevada_def str_or_absent_def optional_fields_def state_val_def meta_line_def reserved_def)

lemma itemToRss_entry:
  assumes "str_or_absent (office it)" "str_or_absent (nepaType it)" "str_or_absent (nepaStatus it)"
    and "url it = JStr u"
  shows "\<exists>d. description it = Inr d
           \<and> itemToRss now it =
               Inr (nl @ ''  <item>'' @ nl
                    @ ''    <guid isPermaLink=\"false\">'' @ escapeXml (id_of it) @ ''</guid>'' @ nl
                    @ ''    <title>'' @ escapeXml (title it) @ ''</title>'' @ nl
                    @ ''    <link>'' @ escapeXml u @ ''</link>'' @ nl
                    @ ''    <pubDate>'' @ now @ ''</pubDate>'' @ nl
                    @ ''    <description><![CDATA['' @ d @ '']]></description>'' @ nl
                    @ ''  </item>'')"
proof -
  from description_from_present_fields [OF assms(1-3)] obtain d where "description it = Inr d"
    by blast
  then show ?thesis
    using assms(4) by (simp add: itemToRss_def escapeXml_any_def bind_err_def)
qed

text \<open>
  C8.  A record with a metadata field that is present and not a string has no
  description and no entry.  \<open>normalizeRows\<close> emits such a record when the upstream
  sends a number for the field: it coerces \<open>id\<close> and \<open>title\<close> to strings and passes
  \<open>office\<close>, \<open>nepaType\<close> and \<open>nepaStatus\<close> on as they are.  \<open>itemToRss\<close> then calls
  \<open>escapeXml\<close> on the number, which has no \<open>replace\<close>, and throws; the feed is not
  written.
\<close>

theorem itemToRss_number_throws:
  "normalizeRows (JArr [JObj [(''id'', JStr ''1''), (''office'', JNum 5)]]) = Inr [office_5]
   \<and> length (filter truthy (optional_fields office_5)) = 1
   \<and> description office_5 = Inl TypeError
   \<and> itemToRss now office_5 = Inl TypeError
   \<and> rss_document now ttl link [office_5] = Inl TypeError"
  by (simp add: normalizeRows_def rows_of_def normalizeRow_def nullish_def field_def nc_def
      trim_def is_space_def js_join_def Let_def project_url_def office_5_def optional_fields_def
      state_val_def rss_document_def itemToRss_def description_def descParts_def descPart_def
      escapeXml_any_def bind_err_def)

section \<open>The Normalizer\<close>

lemma rows_of_not_nullish:
  "\<not> nullish data \<Longrightarrow>
   rows_of data =
     Inr (case data of JArr xs \<Rightarrow> xs
          | _ \<Rightarrow> (case field data ''items'' of JArr xs \<Rightarrow> xs
          | _ \<Rightarrow> (case field data ''content'' of JArr xs \<Rightarrow> xs
          | _ \<Rightarrow> (case field data ''results'' of JArr xs \<Rightarrow> xs
          | _ \<Rightarrow> (case field data ''data'' of JArr xs \<Rightarrow> xs
          | _ \<Rightarrow> [])))))"
  by (cases data; clarsimp simp: rows_of_def nullish_def)

text \<open>
  C4.  The payload \<open>null\<close> is not treated as zero rows: \<open>normalizeRows\<close> reads
  \<open>data.items\<close> on it and throws.
\<close>

theorem normalizeRows_null_throws: "normalizeRows Null = Inl TypeError"
  by (simp add: normalizeRows_def rows_of_def nullish_def bind_err_def)

lemma map_err_Inr_set:
  "map_err f xs = Inr ys \<Longrightarrow> y \<in> set ys \<Longrightarrow> \<exists>x \<in> set xs. f x = Inr y"
proof (induction xs arbitrary: ys)
  case Nil
  then show ?case by simp
next
  case (Cons x xs)
  then show ?case
    by (auto simp: bind_err_def split: sum.splits)
qed

lemma normalizeRow_raw: "normalizeRow p = Inr x \<Longrightarrow> raw x = p"
  by (auto simp: normalizeRow_def Let_def split: if_splits)

lemma normalizeRow_no_id:
  assumes "normalizeRow p = Inr x" and "\<forall>k \<in> set id_fields. nullish (field p k)"
  shows "id_of x = []"
proof -
  from assms(2) have "nc (field p ''id'') (nc (field p ''projectId'') (nc (field p ''nepaId'')
                  (nc (field p ''documentId'') (nc (field p ''projectID'') (nc (field p ''nepaNumber'')
                  (JStr [])))))) = JStr []"
    by (simp add: id_fields_def nc_def)
  with assms(1) show ?thesis
    by (auto simp: normalizeRow_def Let_def trim_def split: if_splits)
qed

text \<open>
  C5.  Of the normalized rows, \<open>normalizeRows\<close> drops exactly those whose resolved \<open>id\<close>
  is empty or whose resolved \<open>url\<close> is empty (absent, or an empty or otherwise falsy
  value).  So every record it emits has a non-empty \<open>id\<close> and a non-empty \<open>url\<close>, and
  comes from a row that has one of the identity fields: a row with a \<open>url\<close> and no
  identity field is not emitted.
\<close>

theorem normalizeRows_emits_valid:
  assumes "normalizeRows data = Inr out"
  shows "(\<exists>rows xs. rows_of data = Inr rows \<and> map_err normalizeRow rows = Inr xs
            \<and> out = filter (\<lambda>x. \<not> (id_of x = [] \<or> \<not> truthy (url x))) xs)
         \<and> (\<forall>x \<in> set out. id_of x \<noteq> [] \<and> truthy (url x) \<and> url x \<noteq> Undefined \<and> url x \<noteq> JStr []
               \<and> (\<exists>k \<in> set id_fields. \<not> nullish (field (raw x) k)))"
proof -
  from assms obtain rows xs where rows: "rows_of data = Inr rows"
    and xs: "map_err normalizeRow rows = Inr xs"
    and out: "out = filter (\<lambda>x. id_of x \<noteq> [] \<and> truthy (url x)) xs"
    by (auto simp: normalizeRows_def bind_err_def split: sum.splits)
  have "id_of x \<noteq> [] \<and> truthy (url x) \<and> url x \<noteq> Undefined \<and> url x \<noteq> JStr []
          \<and> (\<exists>k \<in> set id_fields. \<not> nullish (field (raw x) k))" if "x \<in> set out" for x
  proof -
    from that out have x: "x \<in> set xs" "id_of x \<noteq> []" "truthy (url x)"
      by auto
    from map_err_Inr_set [OF xs x(1)] obtain p where p: "normalizeRow p = Inr x"
      by blast
    have "\<exists>k \<in> set id_fields. \<not> nullish (field (raw x) k)"
      using normalizeRow_no_id [OF p] normalizeRow_raw [OF p] x(2) by blast
    with x show ?thesis by auto
  qed
  with rows xs out show ?thesis by auto
qed

theorem normalizeRows_emits_valid_witness:
  "normalizeRows (JObj [(''content'', JArr [JObj [(''url'', JStr ''https://example.org/a'')],
                                            JObj [(''projectId'', JStr ''100''), (''state'', JStr ''NV'')]])])
     = Inr [\<lparr> id_of = ''100'', title = ''BLM Project 100'',
               url = JStr ''https://eplanning.blm.gov/eplanning-ui/project/100/510'',
               state = Some ''NV'', office = Undefined, nepaStatus = Undefined, nepaType = Undefined,
               raw = JObj [(''projectId'', JStr ''100''), (''state'', JStr ''NV'')] \<rparr>]
   \<and> (\<exists>k \<in> set id_fields. \<not> nullish (field (JObj [(''projectId'', JStr ''100''), (''state'', JStr ''NV'')]) k))"
proof -
  have out: "normalizeRows (JObj [(''content'', JArr [JObj [(''url'', JStr ''https://example.org/a'')],
                                            JObj [(''projectId'', JStr ''100''), (''state'', JStr ''NV'')]])])
     = Inr [\<lparr> id_of = ''100'', title = ''BLM Project 100'',
               url = JStr ''https://eplanning.blm.gov/eplanning-ui/project/100/510'',
               state = Some ''NV'', office = Undefined, nepaStatus = Undefined, nepaType = Undefined,
               raw = JObj [(''projectId'', JStr ''100''), (''state'', JStr ''NV'')] \<rparr>]"
    by (simp add: normalizeRows_def rows_of_def normalizeRow_def nullish_def field_def nc_def
        bind_err_def trim_def is_space_def js_join_def project_url_def Let_def)
  from normalizeRows_emits_valid [OF out] show ?thesis
    using out by simp
qed

section \<open>Expansion and reconciliation\<close>

lemma fold_snoc_map: "fold (\<lambda>x acc. acc @ [f x]) xs acc = acc @ map f xs"
  by (induction xs arbitrary: acc) simp_all

lemma expand_eq:
  "expand states qo =
     (case qo of None \<Rightarrow> []
      | Some q \<Rightarrow>
          if searchText q = [] then []
          else if perState q \<and> states \<noteq> [] then map (\<lambda>st. trim (searchText q @ '' '' @ st)) states
          else [searchText q])"
  by (simp add: expand_def fold_snoc_map split: option.splits)

lemma fetch_all_append:
  "fetch_all fetch (ts @ us) w =
     (case fetch_all fetch ts w of
        (Inl e, w') \<Rightarrow> (Inl e, w')
      | (Inr xs, w') \<Rightarrow>
          (case fetch_all fetch us w' of
             (Inl e, w'') \<Rightarrow> (Inl e, w'')
           | (Inr ys, w'') \<Rightarrow> (Inr (xs @ ys), w'')))"
  by (induction ts arbitrary: w) (auto split: prod.splits sum.splits)

lemma absorb_append: "absorb key (xs @ ys) ms = absorb key ys (absorb key xs ms)"
  by (induction key xs ms rule: absorb.induct) simp_all

lemma per_state_fetch_all:
  "per_state fetch text sts ms w =
     (case fetch_all fetch (map (\<lambda>st. trim (text @ '' '' @ st)) sts) w of
        (Inl e, w') \<Rightarrow> (Inl e, w')
      | (Inr rowss, w') \<Rightarrow> (Inr (absorb id_of (concat rowss) ms), w'))"
  by (induction sts arbitrary: ms w) (auto split: prod.splits sum.splits simp: absorb_append)

lemma browser_terms_fetch_all:
  "browser_terms scrape ts ms w =
     (case fetch_all scrape ts w of
        (Inl e, w') \<Rightarrow> (Inl e, w')
      | (Inr rowss, w') \<Rightarrow> (Inr (absorb id_url (concat rowss) ms), w'))"
  by (induction ts arbitrary: ms w) (auto split: prod.splits sum.splits simp: absorb_append)

lemma keyword_queries_fetch_all:
  "keyword_queries fetch states qs ms w =
     (case fetch_all fetch (concat (map (expand states) qs)) w of
        (Inl e, w') \<Rightarrow> (Inl e, w')
      | (Inr rowss, w') \<Rightarrow> (Inr (absorb id_of (concat rowss) ms), w'))"
proof (induction fetch states qs ms w rule: keyword_queries.induct)
  case (1 fetch states ms w)
  then show ?case by simp
next
  case (2 fetch states qs ms w)
  then show ?case by (simp add: expand_eq)
next
  case (3 fetch states q qs ms w)
  show ?case
  proof (cases "searchText q = []")
    case True
    with 3 show ?thesis by (simp add: expand_eq)
  next
    case False
    note ne = this
    show ?thesis
    proof (cases "perState q \<and> states \<noteq> []")
      case True
      with ne 3(2) show ?thesis
        by (auto simp: expand_eq fetch_all_append per_state_fetch_all absorb_append
            split: prod.splits sum.splits)
    next
      case False
      with ne 3(3) show ?thesis
        by (auto simp: expand_eq absorb_append split: prod.splits sum.splits)
    qed
  qed
qed

lemma browser_queries_fetch_all:
  "browser_queries scrape states qs ms w =
     (case fetch_all scrape (concat (map (expand states) qs)) w of
        (Inl e, w') \<Rightarrow> (Inl e, w')
      | (Inr rowss, w') \<Rightarrow> (Inr (absorb id_url (concat rowss) ms), w'))"
  by (induction qs arbitrary: ms w)
    (auto simp: fetch_all_append browser_terms_fetch_all absorb_append split: prod.splits sum.splits)

lemma filter_conj_absorbed:
  "k \<in> S \<Longrightarrow> filter (\<lambda>x. key x \<noteq> k \<and> key x \<notin> S) xs = filter (\<lambda>x. key x \<notin> S) xs"
  by (induction xs) auto

lemma absorb_first_by:
  "absorb key rows (merged, key ` set merged) =
     (merged @ filter (\<lambda>r. key r \<notin> key ` set merged) (first_by key rows),
      key ` set merged \<union> key ` set rows)"
proof (induction rows arbitrary: merged)
  case Nil
  then show ?case by simp
next
  case (Cons r rows)
  show ?case
  proof (cases "key r \<in> key ` set merged")
    case True
    then have "absorb key (r # rows) (merged, key ` set merged) = absorb key rows (merged, key ` set merged)"
      by simp
    also have "\<dots> = (merged @ filter (\<lambda>r. key r \<notin> key ` set merged) (first_by key rows),
                      key ` set merged \<union> key ` set rows)"
      by (rule Cons)
    also have "filter (\<lambda>r. key r \<notin> key ` set merged) (first_by key rows)
               = filter (\<lambda>r. key r \<notin> key ` set merged) (first_by key (r # rows))"
      using True by (simp add: filter_conj_absorbed)
    also have "key ` set merged \<union> key ` set rows = key ` set merged \<union> key ` set (r # rows)"
      using True by auto
    finally show ?thesis .
  next
    case False
    have ins: "insert (key r) (key ` set merged) = key ` set (merged @ [r])"
      by simp
    have "absorb key (r # rows) (merged, key ` set merged)
          = absorb key rows (merged @ [r], key ` set (merged @ [r]))"
      using False unfolding ins [symmetric] by simp
    also have "\<dots> = ((merged @ [r]) @ filter (\<lambda>x. key x \<notin> key ` set (merged @ [r])) (first_by key rows),
                      key ` set (merged @ [r]) \<union> key ` set rows)"
      by (rule Cons)
    also have "filter (\<lambda>x. key x \<notin> key ` set (merged @ [r])) (first_by key rows)
               = filter (\<lambda>x. key x \<notin> key ` set merged) (filter (\<lambda>y. key y \<noteq> key r) (first_by key rows))"
      by (simp add: conj_commute)
    also have "(merged @ [r]) @ filter (\<lambda>x. key x \<notin> key ` set merged) (filter (\<lambda>y. key y \<noteq> key r) (first_by key rows))
               = merged @ filter (\<lambda>x. key x \<notin> key ` set merged) (first_by key (r # rows))"
      using False by simp
    also have "key ` set (merged @ [r]) \<union> key ` set rows = key ` set merged \<union> key ` set (r # rows)"
      by auto
    finally show ?thesis .
  qed
qed

lemma absorb_empty: "absorb key rows ([], {}) = (first_by key rows, key ` set rows)"
  using absorb_first_by [of key rows "[]"] by simp

lemma first_by_keys: "key ` set (first_by key xs) = key ` set xs"
proof (induction xs)
  case Nil
  then show ?case by simp
next
  case (Cons x xs)
  have "key ` set (filter (\<lambda>y. key y \<noteq> key x) (first_by key xs)) = key ` set (first_by key xs) - {key x}"
    by auto
  with Cons show ?case by auto
qed

lemma first_by_distinct: "distinct (map key (first_by key xs))"
proof (induction xs)
  case Nil
  then show ?case by simp
next
  case (Cons x xs)
  have "distinct (map key (filter (\<lambda>y. key y \<noteq> key x) (first_by key xs)))"
    using Cons by (rule distinct_map_filter)
  then show ?case by auto
qed

lemma first_by_subseq: "subseq (first_by key xs) xs"
proof (induction xs)
  case Nil
  then show ?case by simp
next
  case (Cons x xs)
  have "subseq (filter (\<lambda>y. key y \<noteq> key x) (first_by key xs)) (first_by key xs)"
    by simp
  from subseq_order.order_trans [OF this Cons]
  show ?case by simp
qed

lemma first_by_find:
  "r \<in> set (first_by key xs) \<Longrightarrow> find (\<lambda>x. key x = key r) xs = Some r"
proof (induction xs)
  case Nil
  then show ?case by simp
next
  case (Cons x xs)
  show ?case
  proof (cases "key x = key r")
    case True
    with Cons.prems have "r = x" by auto
    with True show ?thesis by simp
  next
    case False
    with Cons.prems have "r \<in> set (first_by key xs)" by auto
    with Cons.IH False show ?thesis by simp
  qed
qed

lemma project_id_at_digits: "project_id_at u = Some i \<Longrightarrow> \<forall>c \<in> set i. is_digit c"
  by (auto simp: project_id_at_def Let_def split: if_splits dest: set_takeWhileD)

lemma project_id_digits: "project_id u = Some i \<Longrightarrow> \<forall>c \<in> set i. is_digit c"
proof (induction u)
  case Nil
  then show ?case by simp
next
  case (Cons c cs)
  then show ?case
    by (cases "project_id_at (c # cs)") (auto dest: project_id_at_digits)
qed

lemma mapped_shape:
  "r \<in> set (mapped items) \<Longrightarrow> (\<forall>c \<in> set (id_of r). is_digit c) \<and> (\<exists>u. url r = JStr u)"
proof -
  assume "r \<in> set (mapped items)"
  then obtain u t i where "project_id u = Some i"
    and "r = \<lparr> id_of = i, title = (if t \<noteq> [] then t else ''BLM Project '' @ i), url = JStr u,
               state = None, office = Undefined, nepaStatus = Undefined, nepaType = Undefined,
               raw = Undefined \<rparr>"
    by (auto simp: mapped_def split: option.splits)
  then show ?thesis
    using project_id_digits [of u i] by simp
qed

lemma scraped_shape:
  "fetch_all (scrapeSearchTerm browse) ts w = (Inr rowss, w') \<Longrightarrow> r \<in> set (concat rowss) \<Longrightarrow>
   (\<forall>c \<in> set (id_of r). is_digit c) \<and> (\<exists>u. url r = JStr u)"
proof (induction ts arbitrary: w rowss)
  case Nil
  then show ?case by simp
next
  case (Cons t ts)
  from Cons.prems(1) obtain rows w1 rest where
    b: "scrapeSearchTerm browse t w = (Inr rows, w1)"
    and f: "fetch_all (scrapeSearchTerm browse) ts w1 = (Inr rest, w')"
    and r: "rowss = rows # rest"
    by (auto split: prod.splits sum.splits)
  from b obtain items where "rows = mapped items"
    by (auto simp: scrapeSearchTerm_def split: prod.splits sum.splits)
  with Cons.prems(2) r have "r \<in> set (mapped items) \<or> r \<in> set (concat rest)"
    by auto
  then show ?case
  proof
    assume "r \<in> set (mapped items)"
    then show ?thesis by (rule mapped_shape)
  next
    assume "r \<in> set (concat rest)"
    with f show ?thesis by (rule Cons.IH)
  qed
qed

lemma takeWhile_until: "x \<notin> set xs \<Longrightarrow> takeWhile (\<lambda>c. c \<noteq> x) (xs @ x # ys) = xs"
  by (induction xs) auto

lemma split_at_first:
  assumes "x \<notin> set xs" "x \<notin> set xs'"
  shows "xs @ x # ys = xs' @ x # ys' \<longleftrightarrow> xs = xs' \<and> ys = ys'"
proof
  assume eq: "xs @ x # ys = xs' @ x # ys'"
  have "takeWhile (\<lambda>c. c \<noteq> x) (xs @ x # ys) = xs"
    using assms(1) by (rule takeWhile_until)
  moreover have "takeWhile (\<lambda>c. c \<noteq> x) (xs' @ x # ys') = xs'"
    using assms(2) by (rule takeWhile_until)
  ultimately have "xs = xs'"
    unfolding eq by simp
  with eq show "xs = xs' \<and> ys = ys'"
    by simp
next
  assume "xs = xs' \<and> ys = ys'"
  then show "xs @ x # ys = xs' @ x # ys'"
    by simp
qed

lemma id_url_eq_iff:
  assumes "\<forall>c \<in> set (id_of r). is_digit c" "url r = JStr u"
    and "\<forall>c \<in> set (id_of r'). is_digit c" "url r' = JStr u'"
  shows "id_url r = id_url r' \<longleftrightarrow> id_of r = id_of r' \<and> url r = url r'"
proof -
  have bar: "\<not> is_digit CHR ''|''"
    by (simp add: is_digit_def)
  with assms(1,3) have "CHR ''|'' \<notin> set (id_of r)" "CHR ''|'' \<notin> set (id_of r')"
    by auto
  then have "id_of r @ CHR ''|'' # u = id_of r' @ CHR ''|'' # u' \<longleftrightarrow> id_of r = id_of r' \<and> u = u'"
    by (rule split_at_first)
  with assms(2,4) show ?thesis
    by (simp add: id_url_def)
qed

lemma run_keyword_eq:
  "run_keyword post get states queries w =
     (case fetch_all (fetchKeyword post get) (concat (map (expand states) queries)) w of
        (Inl e, w') \<Rightarrow> (Inl e, w')
      | (Inr rowss, w') \<Rightarrow> (Inr (first_by id_of (concat rowss)), w'))"
  by (simp add: run_keyword_def keyword_queries_fetch_all absorb_empty split: prod.splits sum.splits)

lemma run_browser_eq:
  "run_browser browse states queries w =
     (case fetch_all (scrapeSearchTerm browse) (concat (map (expand states) queries)) w of
        (Inl e, w') \<Rightarrow> (Inl e, w')
      | (Inr rowss, w') \<Rightarrow> (Inr (first_by id_url (concat rowss)), w'))"
  by (simp add: run_browser_def browser_queries_fetch_all absorb_empty split: prod.splits sum.splits)

text \<open>
  C2, as the scripts have it.  A query that is \<open>null\<close> or has an empty \<open>searchText\<close> gives
  no term.  With \<open>perState\<close> and a non-empty state list there is one term per state,
  the trimmed text \<open>"{searchText} {state}"\<close>; otherwise there is the one term
  \<open>searchText\<close>, as configured and not trimmed.  The keyword script, which builds no list
  of terms, requests exactly these terms in this order.
\<close>

theorem expand_terms:
  "expand states None = []
   \<and> expand states (Some q) =
       (if searchText q = [] then []
        else if perState q \<and> states \<noteq> [] then map (\<lambda>st. trim (searchText q @ '' '' @ st)) states
        else [searchText q])
   \<and> keyword_queries fetch states qs ms w =
       (case fetch_all fetch (concat (map (expand states) qs)) w of
          (Inl e, w') \<Rightarrow> (Inl e, w')
        | (Inr rowss, w') \<Rightarrow> (Inr (absorb id_of (concat rowss) ms), w'))"
  by (simp add: expand_eq keyword_queries_fetch_all)

text \<open>
  The claim C2 as it is written fails: without \<open>perState\<close> the term is the configured
  text, which is not trimmed.
\<close>

theorem expand_untrimmed_counterexample:
  "expand [''NV''] (Some \<lparr>searchText = '' solar'', perState = False\<rparr>) \<noteq> [trim '' solar'']"
  by (simp add: expand_def trim_def is_space_def)

text \<open>
  C1, as the scripts have it.  The keyword script keeps, of all the rows it retrieved
  in the order of retrieval, the first row of every \<open>id\<close> and drops every later row
  with that \<open>id\<close> whole, so no two merged records share an \<open>id\<close>.  The browser script
  does the same with the key \<open>id|url\<close>, and two of its rows have the same key exactly when
  they have the same \<open>id\<close> and the same \<open>url\<close>: it drops a later row only when both are
  those of an earlier one.
\<close>

theorem merged_first_occurrence:
  "(run_keyword post get states queries w = (Inr merged, w') \<longrightarrow>
      (\<exists>rowss. fetch_all (fetchKeyword post get) (concat (map (expand states) queries)) w = (Inr rowss, w')
         \<and> merged = first_by id_of (concat rowss)
         \<and> subseq merged (concat rowss)
         \<and> id_of ` set merged = id_of ` set (concat rowss)
         \<and> (\<forall>r \<in> set merged. find (\<lambda>x. id_of x = id_of r) (concat rowss) = Some r))
      \<and> distinct (map id_of merged))
   \<and> (run_browser browse states2 queries2 v = (Inr merged2, v') \<longrightarrow>
      (\<exists>rowss. fetch_all (scrapeSearchTerm browse) (concat (map (expand states2) queries2)) v = (Inr rowss, v')
         \<and> merged2 = first_by id_url (concat rowss)
         \<and> subseq merged2 (concat rowss)
         \<and> id_url ` set merged2 = id_url ` set (concat rowss)
         \<and> (\<forall>r \<in> set merged2. find (\<lambda>x. id_url x = id_url r) (concat rowss) = Some r)
         \<and> (\<forall>r \<in> set (concat rowss). \<forall>r' \<in> set (concat rowss).
               id_url r = id_url r' \<longleftrightarrow> id_of r = id_of r' \<and> url r = url r'))
      \<and> distinct (map id_url merged2))"
proof (intro conjI impI)
  assume "run_keyword post get states queries w = (Inr merged, w')"
  then obtain rowss where
    "fetch_all (fetchKeyword post get) (concat (map (expand states) queries)) w = (Inr rowss, w')"
    and "merged = first_by id_of (concat rowss)"
    by (auto simp: run_keyword_eq split: prod.splits sum.splits)
  then show "\<exists>rowss. fetch_all (fetchKeyword post get) (concat (map (expand states) queries)) w = (Inr rowss, w')
         \<and> merged = first_by id_of (concat rowss)
         \<and> subseq merged (concat rowss)
         \<and> id_of ` set merged = id_of ` set (concat rowss)
         \<and> (\<forall>r \<in> set merged. find (\<lambda>x. id_of x = id_of r) (concat rowss) = Some r)"
    and "distinct (map id_of merged)"
    by (auto simp: first_by_subseq first_by_keys first_by_distinct first_by_find simp del: first_by.simps)
next
  assume "run_browser browse states2 queries2 v = (Inr merged2, v')"
  then obtain rowss where
    f: "fetch_all (scrapeSearchTerm browse) (concat (map (expand states2) queries2)) v = (Inr rowss, v')"
    and m: "merged2 = first_by id_url (concat rowss)"
    by (auto simp: run_browser_eq split: prod.splits sum.splits)
  have inj: "id_url r = id_url r' \<longleftrightarrow> id_of r = id_of r' \<and> url r = url r'"
    if "r \<in> set (concat rowss)" "r' \<in> set (concat rowss)" for r r'
    using scraped_shape [OF f that(1)] scraped_shape [OF f that(2)] id_url_eq_iff [of r _ r']
    by blast
  from f m inj
  show "\<exists>rowss. fetch_all (scrapeSearchTerm browse) (concat (map (expand states2) queries2)) v = (Inr rowss, v')
         \<and> merged2 = first_by id_url (concat rowss)
         \<and> subseq merged2 (concat rowss)
         \<and> id_url ` set merged2 = id_url ` set (concat rowss)
         \<and> (\<forall>r \<in> set merged2. find (\<lambda>x. id_url x = id_url r) (concat rowss) = Some r)
         \<and> (\<forall>r \<in> set (concat rowss). \<forall>r' \<in> set (concat rowss).
               id_url r = id_url r' \<longleftrightarrow> id_of r = id_of r' \<and> url r = url r')"
    by (intro exI [of _ rowss] conjI ballI)
      (simp_all add: first_by_subseq first_by_keys first_by_find del: first_by.simps)
  from m show "distinct (map id_url merged2)"
    by (simp add: first_by_distinct del: first_by.simps)
qed

lemma fetchKeyword_json_reply: "t \<noteq> [] \<Longrightarrow> fetchKeyword json_reply search_page t w = (Inr [project_1 t], Suc w)"
  by (simp add: fetchKeyword_def json_reply_def toLowerCase_def upper_letter_def
      normalizeRows_def rows_of_def normalizeRow_def nullish_def field_def nc_def bind_err_def
      trim_def is_space_def js_join_def Let_def project_1_def)

lemma mapped_42:
  "mapped [(''https://eplanning.blm.gov/eplanning-ui/project/42/510'', ''Desert Trail'')]
     = [project_42 ''https://eplanning.blm.gov/eplanning-ui/project/42/510'']"
  by (simp add: mapped_def project_id_at_def is_digit_def project_42_def)

theorem merged_first_occurrence_witness:
  "run_keyword json_reply search_page [] two_queries 0 = (Inr [project_1 ''solar''], 2)
   \<and> distinct (map id_of [project_1 ''solar''])
   \<and> run_browser link_page [] two_queries 0
       = (Inr [project_42 ''https://eplanning.blm.gov/eplanning-ui/project/42/510''], 2)
   \<and> distinct (map id_url [project_42 ''https://eplanning.blm.gov/eplanning-ui/project/42/510''])"
proof -
  have k: "run_keyword json_reply search_page [] two_queries 0 = (Inr [project_1 ''solar''], 2)"
    by (simp add: run_keyword_def two_queries_def fetchKeyword_json_reply)
      (simp add: project_1_def)
  have b: "run_browser link_page [] two_queries 0
       = (Inr [project_42 ''https://eplanning.blm.gov/eplanning-ui/project/42/510''], 2)"
    by (simp add: run_browser_def two_queries_def expand_def scrapeSearchTerm_def link_page_def mapped_42
        project_42_def id_url_def)
  from merged_first_occurrence [of json_reply search_page "[]" two_queries 0 "[project_1 ''solar'']" 2
      link_page "[]" two_queries 0 "[project_42 ''https://eplanning.blm.gov/eplanning-ui/project/42/510'']" 2]
    k b
  show ?thesis by simp
qed

lemma mapped_twin:
  "mapped [(''https://eplanning.blm.gov/eplanning-ui/project/42/510'', ''Desert Trail''),
           (''https://eplanning.blm.gov/eplanning-ui/project/42/510?tab=/510'', ''Desert Trail'')]
     = [project_42 ''https://eplanning.blm.gov/eplanning-ui/project/42/510'',
        project_42 ''https://eplanning.blm.gov/eplanning-ui/project/42/510?tab=/510'']"
  by (simp add: mapped_def project_id_at_def is_digit_def project_42_def)

text \<open>
  The claim C1 as it is written fails in the browser script: two rows with the same
  \<open>id\<close> and different \<open>url\<close>s are both kept.
\<close>

theorem merged_same_id_counterexample:
  "run_browser twin_page [] [Some \<lparr>searchText = ''solar'', perState = False\<rparr>] 0
     = (Inr [project_42 ''https://eplanning.blm.gov/eplanning-ui/project/42/510'',
             project_42 ''https://eplanning.blm.gov/eplanning-ui/project/42/510?tab=/510''], 1)
   \<and> id_of (project_42 ''https://eplanning.blm.gov/eplanning-ui/project/42/510'')
       = id_of (project_42 ''https://eplanning.blm.gov/eplanning-ui/project/42/510?tab=/510'')"
  by (simp add: run_browser_def expand_def scrapeSearchTerm_def twin_page_def mapped_twin)
     (simp add: project_42_def id_url_def)

section \<open>The retrieval ladder\<close>











section \<open>The link extractor\<close>

lemma toLowerCase_char_lt: "toLowerCase_char c = CHR ''<'' \<Longrightarrow> c = CHR ''<''"
proof (cases c)
  case (Char b0 b1 b2 b3 b4 b5 b6 b7)
  assume "toLowerCase_char c = CHR ''<''"
  with Char show ?thesis
    by (cases b5) (auto simp: upper_letter_def Let_def split: if_splits)
qed

lemma toLowerCase_length: "toLowerCase s = t \<Longrightarrow> length s = length t"
  by (auto simp: toLowerCase_def)

lemma link_at_anchor:
  assumes "project_link h p ds attrs txt cl"
  shows "link_at (anchor h p ds attrs txt cl @ rest) = Some (p @ ds @ ''/510'', ds, txt, rest)"
proof -
  from assms have h: "toLowerCase h = ''href=\"''" and p: "toLowerCase p = ''/eplanning-ui/project/''"
    and ds: "ds \<noteq> []" "\<forall>c \<in> set ds. is_digit c" and attrs: "CHR ''>'' \<notin> set attrs"
    and tx: "txt \<noteq> []" "CHR ''<'' \<notin> set txt" and cl: "toLowerCase cl = ''</a>''"
    by (simp_all add: project_link_def)
  have lh: "length h = 6" using toLowerCase_length [OF h] by simp
  have lp: "length p = 22" using toLowerCase_length [OF p] by simp
  have lcl: "length cl = 4" using toLowerCase_length [OF cl] by simp
  from cl obtain cl' where cl': "cl = CHR ''<'' # cl'"
    by (cases cl) (auto simp: toLowerCase_def dest: toLowerCase_char_lt)
  let ?s1 = "p @ ds @ ''/510\"'' @ attrs @ ''>'' @ txt @ cl @ rest"
  let ?s2 = "ds @ ''/510\"'' @ attrs @ ''>'' @ txt @ cl @ rest"
  let ?s3 = "''/510\"'' @ attrs @ ''>'' @ txt @ cl @ rest"
  let ?s4 = "txt @ cl @ rest"
  have t6: "take 6 (anchor h p ds attrs txt cl @ rest) = h" and d6: "drop 6 (anchor h p ds attrs txt cl @ rest) = ?s1"
    using lh by (simp_all add: anchor_def)
  have t22: "take 22 ?s1 = p" and d22: "drop 22 ?s1 = ?s2"
    using lp by simp_all
  have nd: "\<not> is_digit CHR ''/''" by (simp add: is_digit_def)
  have tw: "takeWhile is_digit ?s2 = ds"
    using ds(2) nd by (simp add: takeWhile_append2)
  have dw: "dropWhile is_digit ?s2 = ?s3"
    using ds(2) nd by (simp add: dropWhile_append2)
  have t5: "take 5 ?s3 = ''/510\"''" and d5: "drop 5 ?s3 = attrs @ ''>'' @ ?s4"
    by simp_all
  have dgt: "dropWhile (\<lambda>c. c \<noteq> CHR ''>'') (attrs @ ''>'' @ ?s4) = CHR ''>'' # ?s4"
    using attrs by (subst dropWhile_append2) auto
  have twt: "takeWhile (\<lambda>c. c \<noteq> CHR ''<'') ?s4 = txt"
    using tx(2) by (subst takeWhile_append2) (auto simp: cl')
  have dwt: "dropWhile (\<lambda>c. c \<noteq> CHR ''<'') ?s4 = cl @ rest"
    using tx(2) by (subst dropWhile_append2) (auto simp: cl')
  have t4: "take 4 (cl @ rest) = cl" and d4: "drop 4 (cl @ rest) = rest"
    using lcl by simp_all
  show ?thesis
    unfolding link_at_def t6 d6 Let_def t22 d22 tw dw t5 d5 dgt list.case twt dwt t4 d4
    using h p ds(1) tx(1) cl by simp
qed


lemma dropWhile_Cons_not: "dropWhile P xs = y # ys \<Longrightarrow> \<not> P y"
  by (metis hd_dropWhile list.discI list.sel(1))

lemma link_at_sound:
  assumes "link_at s = Some (rel, i, t, r)"
  shows "\<exists>h p attrs cl. project_link h p i attrs t cl \<and> s = anchor h p i attrs t cl @ r
           \<and> rel = p @ i @ ''/510''"
proof -
  define s1 where "s1 = drop 6 s"
  define s2 where "s2 = drop 22 s1"
  define s3 where "s3 = dropWhile is_digit s2"
  define s3' where "s3' = drop 5 s3"
  from assms have h: "toLowerCase (take 6 s) = ''href=\"''"
    by (auto simp: link_at_def Let_def split: if_splits)
  with assms have p: "toLowerCase (take 22 s1) = ''/eplanning-ui/project/''"
    by (auto simp: link_at_def Let_def s1_def split: if_splits)
  with assms h have ds: "takeWhile is_digit s2 \<noteq> []" "take 5 s3 = ''/510\"''"
    by (auto simp: link_at_def Let_def s1_def s2_def s3_def split: if_splits)
  with assms h p obtain g s4 where s4: "dropWhile (\<lambda>c. c \<noteq> CHR ''>'') s3' = g # s4"
    by (auto simp: link_at_def Let_def s1_def s2_def s3_def s3'_def split: if_splits list.splits)
  define s5 where "s5 = dropWhile (\<lambda>c. c \<noteq> CHR ''<'') s4"
  from assms h p ds s4 have res: "takeWhile (\<lambda>c. c \<noteq> CHR ''<'') s4 \<noteq> []" "toLowerCase (take 4 s5) = ''</a>''"
    "rel = take 22 s1 @ takeWhile is_digit s2 @ ''/510''" "i = takeWhile is_digit s2"
    "t = takeWhile (\<lambda>c. c \<noteq> CHR ''<'') s4" "r = drop 4 s5"
    by (auto simp: link_at_def Let_def s1_def s2_def s3_def s3'_def s5_def split: if_splits)
  from dropWhile_Cons_not [OF s4] have g: "g = CHR ''>''"
    by simp
  let ?attrs = "takeWhile (\<lambda>c. c \<noteq> CHR ''>'') s3'"
  have "s = take 6 s @ s1"
    by (simp add: s1_def)
  also have "s1 = take 22 s1 @ s2"
    by (simp add: s2_def)
  also have "s2 = i @ s3"
    by (simp add: s3_def res(4))
  also have "s3 = ''/510\"'' @ s3'"
    unfolding s3'_def ds(2) [symmetric] by simp
  also have "s3' = ?attrs @ g # s4"
    unfolding s4 [symmetric] by simp
  also have "s4 = t @ s5"
    by (simp add: s5_def res(5))
  also have "s5 = take 4 s5 @ r"
    by (simp add: res(6))
  finally have s: "s = anchor (take 6 s) (take 22 s1) i ?attrs t (take 4 s5) @ r"
    by (simp add: anchor_def g)
  have "\<forall>c \<in> set i. is_digit c"
    unfolding res(4) by (auto dest: set_takeWhileD)
  moreover have "CHR ''>'' \<notin> set ?attrs"
    by (auto dest: set_takeWhileD)
  moreover have "CHR ''<'' \<notin> set t"
    unfolding res(5) by (auto dest: set_takeWhileD)
  ultimately have "project_link (take 6 s) (take 22 s1) i ?attrs t (take 4 s5)"
    using h p ds(1) res by (simp add: project_link_def)
  with s res(3,4) show ?thesis by blast
qed

lemma exec_all_unfold:
  "s \<noteq> [] \<Longrightarrow>
   exec_all s = (case link_at s of Some (rel, i, t, r) \<Rightarrow> (rel, i, t) # exec_all r | None \<Rightarrow> exec_all (tl s))"
  by (cases s) (auto split: option.splits)

lemma anchor_not_Nil: "project_link h p ds attrs t cl \<Longrightarrow> anchor h p ds attrs t cl @ rest \<noteq> []"
  by (auto simp: project_link_def anchor_def toLowerCase_def)

lemma extract_links_anchor:
  assumes "project_link h p ds attrs t cl"
  shows "extract_links (anchor h p ds attrs t cl @ rest)
           = link_item (p @ ds @ ''/510'', ds, t) # extract_links rest"
  using assms
  by (simp add: extract_links_def exec_all_unfold [OF anchor_not_Nil [OF assms]] link_at_anchor)

lemma extract_links_skip:
  assumes "\<forall>h p ds attrs t cl rest. project_link h p ds attrs t cl \<longrightarrow> c # cs \<noteq> anchor h p ds attrs t cl @ rest"
  shows "extract_links (c # cs) = extract_links cs"
proof -
  have "link_at (c # cs) = None"
  proof (cases "link_at (c # cs)")
    case None
    then show ?thesis .
  next
    case (Some m)
    obtain rel i t r where "m = (rel, i, t, r)"
      by (cases m) auto
    with Some link_at_sound [of "c # cs" rel i t r] assms show ?thesis
      by blast
  qed
  then show ?thesis
    by (simp add: extract_links_def)
qed

lemma extract_links_none:
  assumes "\<forall>pre h p ds attrs t cl rest. project_link h p ds attrs t cl \<longrightarrow> s \<noteq> pre @ anchor h p ds attrs t cl @ rest"
  shows "extract_links s = []"
  using assms
proof (induction s)
  case Nil
  then show ?case by (simp add: extract_links_def)
next
  case (Cons c cs)
  have "\<forall>h p ds attrs t cl rest. project_link h p ds attrs t cl \<longrightarrow> c # cs \<noteq> anchor h p ds attrs t cl @ rest"
    using Cons.prems [rule_format, of _ _ _ _ _ _ "[]"] by auto
  then have "extract_links (c # cs) = extract_links cs"
    by (rule extract_links_skip)
  moreover have "\<forall>pre h p ds attrs t cl rest. project_link h p ds attrs t cl \<longrightarrow> cs \<noteq> pre @ anchor h p ds attrs t cl @ rest"
  proof (intro allI impI notI)
    fix pre h p ds attrs t cl rest
    assume "project_link h p ds attrs t cl" and "cs = pre @ anchor h p ds attrs t cl @ rest"
    then have "c # cs = (c # pre) @ anchor h p ds attrs t cl @ rest"
      by simp
    with Cons.prems \<open>project_link h p ds attrs t cl\<close> show False
      by blast
  qed
  ultimately show ?case
    using Cons.IH by simp
qed


text \<open>
  C6, as the script has it.  The extractor reads the page from left to right.  Where the
  text starts with a project link (\<open>href="/eplanning-ui/project/<digits>/510"\<close> with the
  letters in either case, then any characters but \<open>>\<close>, then \<open>>\<close>, then a non-empty link
  text without \<open><\<close>, then \<open></a>\<close>) it produces one record and goes on behind the link:
  \<open>id\<close> is the digits, \<open>title\<close> the trimmed link text, or \<open>BLM Project {id}\<close> when nothing
  is left of it, \<open>url\<close> the href behind \<open>https://eplanning.blm.gov\<close>, and no metadata.
  Where the text does not start with such a link it goes on with the next character.
  It is total: the empty page, and a page in which no such link occurs, give the empty
  list.
\<close>

theorem extract_links_project_links:
  "(project_link h p ds attrs t cl \<longrightarrow>
      extract_links (anchor h p ds attrs t cl @ rest)
        = \<lparr> id_of = ds, title = (if trim t \<noteq> [] then trim t else ''BLM Project '' @ ds),
             url = JStr (''https://eplanning.blm.gov'' @ p @ ds @ ''/510''),
             state = None, office = Undefined, nepaStatus = Undefined, nepaType = Undefined,
             raw = Undefined \<rparr> # extract_links rest)
   \<and> ((\<forall>h p ds attrs t cl rest. project_link h p ds attrs t cl \<longrightarrow> c # cs \<noteq> anchor h p ds attrs t cl @ rest)
        \<longrightarrow> extract_links (c # cs) = extract_links cs)
   \<and> extract_links [] = []
   \<and> ((\<forall>pre h p ds attrs t cl rest. project_link h p ds attrs t cl \<longrightarrow> s \<noteq> pre @ anchor h p ds attrs t cl @ rest)
        \<longrightarrow> extract_links s = [])"
proof (intro conjI impI)
  assume "project_link h p ds attrs t cl"
  then show "extract_links (anchor h p ds attrs t cl @ rest)
        = \<lparr> id_of = ds, title = (if trim t \<noteq> [] then trim t else ''BLM Project '' @ ds),
             url = JStr (''https://eplanning.blm.gov'' @ p @ ds @ ''/510''),
             state = None, office = Undefined, nepaStatus = Undefined, nepaType = Undefined,
             raw = Undefined \<rparr> # extract_links rest"
    by (simp add: extract_links_anchor link_item_def)
next
  assume "\<forall>h p ds attrs t cl rest. project_link h p ds attrs t cl \<longrightarrow> c # cs \<noteq> anchor h p ds attrs t cl @ rest"
  then show "extract_links (c # cs) = extract_links cs"
    by (rule extract_links_skip)
next
  show "extract_links [] = []"
    by (simp add: extract_links_def)
next
  assume "\<forall>pre h p ds attrs t cl rest. project_link h p ds attrs t cl \<longrightarrow> s \<noteq> pre @ anchor h p ds attrs t cl @ rest"
  then show "extract_links s = []"
    by (rule extract_links_none)
qed

lemma anchor_has_quote: "CHR 0x22 \<in> set (pre @ anchor h p ds attrs t cl @ rest)"
  by (simp add: anchor_def)

theorem extract_links_project_links_witness:
  "extract_links ''HREF=\"/eplanning-ui/Project/42/510\" target=\"_blank\"> Desert Trail </A></li>''
     = [\<lparr> id_of = ''42'', title = ''Desert Trail'',
            url = JStr ''https://eplanning.blm.gov/eplanning-ui/Project/42/510'',
            state = None, office = Undefined, nepaStatus = Undefined, nepaType = Undefined,
            raw = Undefined \<rparr>]
   \<and> extract_links ''<li>'' = extract_links ''li>''
   \<and> extract_links ''<p>no results</p>'' = []"
proof -
  have pl: "project_link ''HREF=\"'' ''/eplanning-ui/Project/'' ''42'' '' target=\"_blank\"'' '' Desert Trail '' ''</A>''"
    by (simp add: project_link_def toLowerCase_def upper_letter_def is_digit_def)
  have a: "anchor ''HREF=\"'' ''/eplanning-ui/Project/'' ''42'' '' target=\"_blank\"'' '' Desert Trail '' ''</A>'' @ ''</li>''
             = ''HREF=\"/eplanning-ui/Project/42/510\" target=\"_blank\"> Desert Trail </A></li>''"
    by (simp add: anchor_def)
  have no1: "\<forall>h p ds attrs t cl rest. project_link h p ds attrs t cl \<longrightarrow> CHR ''<'' # ''li>'' \<noteq> anchor h p ds attrs t cl @ rest"
  proof (intro allI impI notI)
    fix h p ds attrs t cl rest
    assume eq: "CHR ''<'' # ''li>'' = anchor h p ds attrs t cl @ rest"
    have "CHR 0x22 \<in> set (anchor h p ds attrs t cl @ rest)"
      using anchor_has_quote [of "[]" h p ds attrs t cl rest] by simp
    then have "CHR 0x22 \<in> set (CHR ''<'' # ''li>'')"
      by (simp only: eq [symmetric])
    then show False
      by simp
  qed
  have no2: "\<forall>pre h p ds attrs t cl rest. project_link h p ds attrs t cl \<longrightarrow> ''<p>no results</p>'' \<noteq> pre @ anchor h p ds attrs t cl @ rest"
  proof (intro allI impI notI)
    fix pre h p ds attrs t cl rest
    assume eq: "''<p>no results</p>'' = pre @ anchor h p ds attrs t cl @ rest"
    have "CHR 0x22 \<in> set (pre @ anchor h p ds attrs t cl @ rest)"
      by (rule anchor_has_quote)
    then have "CHR 0x22 \<in> set ''<p>no results</p>''"
      by (simp only: eq [symmetric])
    then show False
      by simp
  qed
  have tail: "extract_links ''</li>'' = []"
    by (simp add: extract_links_def link_at_def toLowerCase_def upper_letter_def)
  have tr: "trim '' Desert Trail '' = ''Desert Trail''"
    by (simp add: trim_def is_space_def)
  from extract_links_project_links [of "''HREF=\"''" "''/eplanning-ui/Project/''" "''42''" "'' target=\"_blank\"''"
      "'' Desert Trail ''" "''</A>''" "''</li>''" "CHR ''<''" "''li>''" "''<p>no results</p>''"]
    pl no1 no2
  show ?thesis
    unfolding a by (simp add: tail tr)
qed

text \<open>
  The claim C6 as it is written fails: an anchor with the project href and an empty link
  text gives no record, and no title is synthesized for it.
\<close>

theorem extract_links_empty_text_counterexample:
  "extract_links ''<a href=\"/eplanning-ui/project/42/510\"></a>'' = []"
  by (simp add: extract_links_def link_at_def toLowerCase_def upper_letter_def is_digit_def)

section \<open>The partition by state\<close>

lemma push_to_keys:
  "map fst (push_to st r m) = (if st \<in> fst ` set m then map fst m else map fst m @ [st])"
  by (induction m) (auto simp: rev_image_eqI)

lemma push_to_distinct: "distinct (map fst m) \<Longrightarrow> distinct (map fst (push_to st r m))"
  by (simp add: push_to_keys)

lemma push_to_sublist:
  "sublist_of (push_to st r m) k = (if k = st then sublist_of m k @ [r] else sublist_of m k)"
  by (induction m) (auto simp: sublist_of_def)

lemma push_to_key_set: "fst ` set (push_to st r m) = insert st (fst ` set m)"
proof -
  have "set (map fst (push_to st r m)) = insert st (fst ` set m)"
    unfolding push_to_keys by auto
  then show ?thesis by simp
qed

lemma fold_push_keys:
  "fst ` set (fold (\<lambda>st. push_to st r) ts m) = fst ` set m \<union> set ts"
  by (induction ts arbitrary: m) (simp_all add: push_to_key_set)

lemma fold_push_distinct:
  "distinct (map fst m) \<Longrightarrow> distinct (map fst (fold (\<lambda>st. push_to st r) ts m))"
  by (induction ts arbitrary: m) (simp_all add: push_to_distinct)

lemma fold_push_sublist:
  "sublist_of (fold (\<lambda>st. push_to st r) ts m) k = sublist_of m k @ replicate (count_list ts k) r"
  by (induction ts arbitrary: m) (simp_all add: push_to_sublist replicate_app_Cons_same)

lemma partition_fold_keys:
  "fst ` set (fold (\<lambda>r m. fold (\<lambda>st. push_to st r) (state_tokens r) m) rs m)
     = fst ` set m \<union> (\<Union>r \<in> set rs. set (state_tokens r))"
  by (induction rs arbitrary: m) (simp_all add: fold_push_keys Un_assoc)

lemma partition_fold_distinct:
  "distinct (map fst m) \<Longrightarrow>
   distinct (map fst (fold (\<lambda>r m. fold (\<lambda>st. push_to st r) (state_tokens r) m) rs m))"
  by (induction rs arbitrary: m) (simp_all add: fold_push_distinct)

lemma partition_fold_sublist:
  "sublist_of (fold (\<lambda>r m. fold (\<lambda>st. push_to st r) (state_tokens r) m) rs m) k
     = sublist_of m k @ concat (map (\<lambda>r. replicate (count_list (state_tokens r) k) r) rs)"
  by (induction rs arbitrary: m) (simp_all add: fold_push_sublist)

lemma map_of_keys: "map_of m k = None \<longleftrightarrow> k \<notin> fst ` set m"
  by (simp add: map_of_eq_None_iff)

lemma state_tokens_nonempty: "[] \<notin> set (state_tokens r)"
  by (simp add: state_tokens_def)

lemma state_tokens_absent: "state r = None \<Longrightarrow> state_tokens r = []"
  by (simp add: state_tokens_def trim_def)

lemma trim_trim: "trim (trim s) = trim s"
proof -
  let ?u = "dropWhile is_space s"
  let ?v = "dropWhile is_space (rev ?u)"
  have v: "dropWhile is_space ?v = ?v"
    by simp
  have "dropWhile is_space (rev ?v) = rev ?v"
  proof (cases "?v = []")
    case True
    show ?thesis unfolding True by simp
  next
    case False
    obtain w where w: "rev ?u = w @ ?v"
      by (metis takeWhile_dropWhile_id)
    then have "?u = rev ?v @ rev w"
      by (metis rev_append rev_rev_ident)
    with False have "hd (rev ?v) = hd ?u" "?u \<noteq> []"
      by (metis hd_append2 rev_is_Nil_conv, metis Nil_is_append_conv rev_is_Nil_conv False)
    moreover have "\<not> is_space (hd ?u)"
      using \<open>?u \<noteq> []\<close> by (rule hd_dropWhile)
    ultimately show ?thesis
      by (simp add: dropWhile_eq_self_iff)
  qed
  then show ?thesis
    by (simp add: trim_def)
qed

lemma state_tokens_trimmed: "map trim (state_tokens r) = state_tokens r"
  by (simp add: state_tokens_def filter_map comp_def trim_trim map_idI)

text \<open>
  C3, as the scripts have it.  The partition map has one entry per label.  A label is a
  token of the \<open>state\<close> of some merged record: a piece between commas, trimmed and not
  empty.  The sub-list of a label holds the merged records in encounter order, each as
  many times as the label occurs among its tokens: once per occurrence, not once per
  distinct token.  A record with no \<open>state\<close> has no token and is in no sub-list.
\<close>

theorem partition_by_state_sublists:
  "distinct (map fst (partition_by_state merged))
   \<and> map_of (partition_by_state merged) st =
       (if \<exists>r \<in> set merged. st \<in> set (state_tokens r)
        then Some (concat (map (\<lambda>r. replicate (count_list (state_tokens r) st) r) merged))
        else None)
   \<and> [] \<notin> set (state_tokens r) \<and> map trim (state_tokens r) = state_tokens r
   \<and> state_tokens (r\<lparr>state := None\<rparr>) = []"
proof -
  let ?m = "partition_by_state merged"
  have d: "distinct (map fst ?m)"
    unfolding partition_by_state_def by (rule partition_fold_distinct) simp
  have keys: "fst ` set ?m = (\<Union>r \<in> set merged. set (state_tokens r))"
    unfolding partition_by_state_def by (simp add: partition_fold_keys)
  have sub: "sublist_of ?m st = concat (map (\<lambda>r. replicate (count_list (state_tokens r) st) r) merged)"
    unfolding partition_by_state_def partition_fold_sublist by (simp add: sublist_of_def)
  have look: "map_of ?m st =
       (if \<exists>r \<in> set merged. st \<in> set (state_tokens r)
        then Some (concat (map (\<lambda>r. replicate (count_list (state_tokens r) st) r) merged))
        else None)"
  proof (cases "map_of ?m st")
    case None
    then have "st \<notin> fst ` set ?m"
      by (simp add: map_of_keys)
    with None keys show ?thesis by auto
  next
    case (Some rs)
    then have "st \<in> fst ` set ?m"
      using map_of_keys [of ?m st] by auto
    moreover from Some sub have "rs = concat (map (\<lambda>r. replicate (count_list (state_tokens r) st) r) merged)"
      by (simp add: sublist_of_def)
    ultimately show ?thesis
      using Some keys by auto
  qed
  from d look show ?thesis
    by (simp add: state_tokens_nonempty state_tokens_trimmed state_tokens_absent)
qed

text \<open>
  The claim C3 as it is written fails: a record whose \<open>state\<close> names a label twice is
  twice in the sub-list of that label.
\<close>

theorem partition_repeated_token_counterexample:
  "partition_by_state [nevada_twice] = [(''NV'', [nevada_twice, nevada_twice])]"
  by (simp add: partition_by_state_def state_tokens_def nevada_twice_def nevada_def trim_def is_space_def)

section \<open>The files of the state feeds\<close>

lemma state_path_eq: "state_path dir a = state_path dir b \<longleftrightarrow> fname a = fname b"
  by (simp add: state_path_def)

lemma write_state_feeds_append:
  "write_state_feeds now dir ttl (es1 @ es2) files =
     bind_err (write_state_feeds now dir ttl es1 files) (write_state_feeds now dir ttl es2)"
  by (induction es1 arbitrary: files) (auto simp: bind_err_def split: sum.splits)

lemma write_state_feeds_one:
  "write_state_feeds now dir ttl [(st, items)] files =
     bind_err (rss_document now (ttl st) home items) (\<lambda>doc. Inr (files(state_path dir st \<mapsto> doc)))"
  by (simp add: writeRss_def home_def bind_err_def split: sum.splits)

lemma write_state_feeds_other:
  "write_state_feeds now dir ttl es files = Inr files' \<Longrightarrow>
   \<forall>(st, items) \<in> set es. fname st \<noteq> fname st0 \<Longrightarrow>
   files' (state_path dir st0) = files (state_path dir st0)"
proof (induction es arbitrary: files)
  case Nil
  then show ?case by simp
next
  case (Cons e es)
  obtain st items where e: "e = (st, items)"
    by (cases e) auto
  from Cons.prems(1) obtain doc where
    w: "write_state_feeds now dir ttl es (files(state_path dir st \<mapsto> doc)) = Inr files'"
    by (auto simp: e writeRss_def bind_err_def split: sum.splits)
  from Cons.prems(2) have rest: "\<forall>(st, items) \<in> set es. fname st \<noteq> fname st0"
    and this_one: "fname st \<noteq> fname st0"
    by (auto simp: e)
  have "files' (state_path dir st0) = (files(state_path dir st \<mapsto> doc)) (state_path dir st0)"
    using w rest by (rule Cons.IH)
  also have "\<dots> = files (state_path dir st0)"
    using this_one by (simp add: state_path_eq)
  finally show ?case .
qed

text \<open>
  C10.  The file name of a state's feed keeps only the letters A-Z of the label in upper
  case, so different labels can have the same file name: \<open>nv\<close>, \<open>NV\<close> and \<open>N.V.\<close> all give
  \<open>NV\<close>.  When two labels of the partition map have the same file name, both feeds are
  written to the same path: the feed of the earlier label is written there first, and
  when the loop has ended without an exception the file holds the feed of the later
  label (the last one with this file name).
\<close>

theorem state_feeds_overwrite:
  assumes "entries = pre @ (st1, items1) # mid @ (st2, items2) # post"
    and "fname st1 = fname st2"
    and "\<forall>(st, items) \<in> set post. fname st \<noteq> fname st2"
    and "write_state_feeds now dir ttl entries files = Inr files'"
  shows "fname ''nv'' = fname ''NV'' \<and> fname ''N.V.'' = fname ''NV''
       \<and> state_path dir st1 = state_path dir st2
       \<and> (\<exists>files1 doc1. write_state_feeds now dir ttl (pre @ [(st1, items1)]) files = Inr files1
             \<and> rss_document now (ttl st1) home items1 = Inr doc1
             \<and> files1 (state_path dir st1) = Some doc1)
       \<and> (\<exists>doc2. rss_document now (ttl st2) home items2 = Inr doc2
             \<and> files' (state_path dir st1) = Some doc2)"
proof -
  have names: "fname ''nv'' = fname ''NV''" "fname ''N.V.'' = fname ''NV''"
    by (simp_all add: fname_def toUpperCase_def lower_letter_def)
  have path: "state_path dir st1 = state_path dir st2"
    using assms(2) by (simp add: state_path_eq)
  have split: "entries = pre @ [(st1, items1)] @ mid @ [(st2, items2)] @ post"
    using assms(1) by simp
  from assms(4) obtain f0 where f0: "write_state_feeds now dir ttl pre files = Inr f0"
    and r0: "write_state_feeds now dir ttl ([(st1, items1)] @ mid @ [(st2, items2)] @ post) f0 = Inr files'"
    unfolding split write_state_feeds_append [of now dir ttl pre]
    by (auto simp: bind_err_def split: sum.splits)
  from r0 obtain f1 where f1: "write_state_feeds now dir ttl [(st1, items1)] f0 = Inr f1"
    and r1: "write_state_feeds now dir ttl (mid @ [(st2, items2)] @ post) f1 = Inr files'"
    unfolding write_state_feeds_append [of now dir ttl "[(st1, items1)]"]
    by (auto simp: bind_err_def split: sum.splits)
  from f1 obtain doc1 where doc1: "rss_document now (ttl st1) home items1 = Inr doc1"
    and f1_eq: "f1 = f0(state_path dir st1 \<mapsto> doc1)"
    unfolding write_state_feeds_one by (auto simp: bind_err_def split: sum.splits)
  have first: "write_state_feeds now dir ttl (pre @ [(st1, items1)]) files = Inr f1"
    unfolding write_state_feeds_append f0 bind_err_def by (simp only: sum.case f1)
  from r1 obtain f2 where f2: "write_state_feeds now dir ttl mid f1 = Inr f2"
    and r2: "write_state_feeds now dir ttl ([(st2, items2)] @ post) f2 = Inr files'"
    unfolding write_state_feeds_append [of now dir ttl mid]
    by (auto simp: bind_err_def split: sum.splits)
  from r2 obtain f3 where f3: "write_state_feeds now dir ttl [(st2, items2)] f2 = Inr f3"
    and r3: "write_state_feeds now dir ttl post f3 = Inr files'"
    unfolding write_state_feeds_append [of now dir ttl "[(st2, items2)]"]
    by (auto simp: bind_err_def split: sum.splits)
  from f3 obtain doc2 where doc2: "rss_document now (ttl st2) home items2 = Inr doc2"
    and f3_eq: "f3 = f2(state_path dir st2 \<mapsto> doc2)"
    unfolding write_state_feeds_one by (auto simp: bind_err_def split: sum.splits)
  from write_state_feeds_other [OF r3 assms(3)] have "files' (state_path dir st2) = Some doc2"
    by (simp add: f3_eq)
  with names path first doc1 doc2 f1_eq show ?thesis
    by auto
qed


lemma rss_document_one_ok:
  "url it = JStr u \<Longrightarrow> office it = Undefined \<Longrightarrow> nepaType it = Undefined \<Longrightarrow> nepaStatus it = Undefined \<Longrightarrow>
   \<exists>doc. rss_document now t l [it] = Inr doc"
  by (simp add: rss_document_def itemToRss_def description_def descParts_str str_or_absent_def
      escapeXml_any_def bind_err_def)

theorem state_feeds_overwrite_witness:
  "partition_by_state [nevada_low, nevada_up] = [(''nv'', [nevada_low]), (''NV'', [nevada_up])]
   \<and> fname ''nv'' = ''NV'' \<and> fname ''NV'' = ''NV''
   \<and> (\<exists>files' doc2.
         write_state_feeds ''NOW'' ''docs/by-state'' watch_title (partition_by_state [nevada_low, nevada_up]) Map.empty
           = Inr files'
         \<and> rss_document ''NOW'' (watch_title ''NV'') home [nevada_up] = Inr doc2
         \<and> files' ''docs/by-state/NV.xml'' = Some doc2)"
proof -
  have part: "partition_by_state [nevada_low, nevada_up] = [(''nv'', [nevada_low]), (''NV'', [nevada_up])]"
    by (simp add: partition_by_state_def state_tokens_def nevada_low_def nevada_up_def nevada_def
        trim_def is_space_def)
  have names: "fname ''nv'' = ''NV''" "fname ''NV'' = ''NV''"
    by (simp_all add: fname_def toUpperCase_def lower_letter_def)
  obtain d1 where d1: "rss_document ''NOW'' (watch_title ''nv'') home [nevada_low] = Inr d1"
    using rss_document_one_ok [of nevada_low "''https://eplanning.blm.gov/eplanning-ui/project/7/510''"
        "''NOW''" "watch_title ''nv''" home]
    by (auto simp: nevada_low_def nevada_def)
  obtain d2 where d2: "rss_document ''NOW'' (watch_title ''NV'') home [nevada_up] = Inr d2"
    using rss_document_one_ok [of nevada_up "''https://eplanning.blm.gov/eplanning-ui/project/42/510''"
        "''NOW''" "watch_title ''NV''" home]
    by (auto simp: nevada_up_def nevada_def)
  let ?files = "[state_path ''docs/by-state'' ''nv'' \<mapsto> d1, state_path ''docs/by-state'' ''NV'' \<mapsto> d2]"
  have w: "write_state_feeds ''NOW'' ''docs/by-state'' watch_title [(''nv'', [nevada_low]), (''NV'', [nevada_up])] Map.empty
             = Inr ?files"
    using d1 d2 by (simp add: writeRss_def bind_err_def home_def)
  have p: "state_path ''docs/by-state'' ''nv'' = ''docs/by-state/NV.xml''"
    by (simp add: state_path_def names)
  have e: "[(''nv'', [nevada_low]), (''NV'', [nevada_up])]
             = [] @ (''nv'', [nevada_low]) # [] @ (''NV'', [nevada_up]) # []"
    by simp
  have same: "fname ''nv'' = fname ''NV''"
    by (simp add: names)
  have last: "\<forall>(st, items) \<in> set []. fname st \<noteq> fname ''NV''"
    by simp
  from state_feeds_overwrite [OF e same last w]
  obtain doc2 where "rss_document ''NOW'' (watch_title ''NV'') home [nevada_up] = Inr doc2"
    and "?files (state_path ''docs/by-state'' ''nv'') = Some doc2"
    by blast
  then have "rss_document ''NOW'' (watch_title ''NV'') home [nevada_up] = Inr doc2
      \<and> ?files ''docs/by-state/NV.xml'' = Some doc2"
    by (simp only: p simp_thms)
  with w have "\<exists>files' doc2.
         write_state_feeds ''NOW'' ''docs/by-state'' watch_title [(''nv'', [nevada_low]), (''NV'', [nevada_up])] Map.empty
           = Inr files'
         \<and> rss_document ''NOW'' (watch_title ''NV'') home [nevada_up] = Inr doc2
         \<and> files' ''docs/by-state/NV.xml'' = Some doc2"
    by blast
  with part names show ?thesis
    by (simp only: simp_thms)
qed

end
